theory Spec2Isabelle
  imports Complex_Main
begin

section \<open>The password generator of \<^verbatim>\<open>src/utils/PasswordGenerator.ts\<close>\<close>

text \<open>
  The class \<^verbatim>\<open>PasswordGenerator\<close> is embedded as a record of its fields, each method as
  a function from the generator (and the random source) to its result.

  \<^item> A JavaScript number that holds an integer is an \<open>int\<close>; the result of
    \<^verbatim>\<open>Math.random()\<close> is a \<open>real\<close> (doubles are idealised as reals: products are
    exact). A draw is valid when it lies in \<open>[0, 1)\<close>.
  \<^item> The random source is a sequence \<open>rnd :: nat \<Rightarrow> real\<close> of the results of the
    successive calls of \<^verbatim>\<open>Math.random()\<close>, read at a position that every call
    advances by one; each function returns the position it has reached.
  \<^item> Reading an array or a string out of range gives \<^verbatim>\<open>undefined\<close>: \<open>None\<close> of
    \<open>js_index\<close>, \<open>Undefined\<close> of \<open>string_index\<close>. Reading a property of
    \<^verbatim>\<open>undefined\<close> throws: \<open>Inl TypeError\<close>.
  \<^item> The two sampling loops have no bound, so they are partial functions in the option
    monad: \<open>None\<close> is a run that never leaves the loop.
\<close>

subsection \<open>JavaScript primitives\<close>

datatype error = TypeError

datatype jsstring = Undefined | Str string

text \<open>\<^verbatim>\<open>Math.round(x)\<close>: the nearest integer, a tie going up.\<close>

definition js_round :: "real \<Rightarrow> int" where
  "js_round x = \<lfloor>x + 1 / 2\<rfloor>"

text \<open>\<^verbatim>\<open>xs[i]\<close> on an array; \<open>None\<close> is \<^verbatim>\<open>undefined\<close>.\<close>

definition js_index :: "'a list \<Rightarrow> int \<Rightarrow> 'a option" where
  "js_index xs i = (if 0 \<le> i \<and> i < int (length xs) then Some (xs ! nat i) else None)"

text \<open>\<^verbatim>\<open>s[i]\<close> on a string: a string of one character, or \<^verbatim>\<open>undefined\<close>.\<close>

definition string_index :: "string \<Rightarrow> int \<Rightarrow> jsstring" where
  "string_index s i = (if 0 \<le> i \<and> i < int (length s) then Str [s ! nat i] else Undefined)"

text \<open>The truth value of an array element in a condition; \<^verbatim>\<open>undefined\<close> is falsy.\<close>

definition truthy :: "bool option \<Rightarrow> bool" where
  "truthy v = (case v of None \<Rightarrow> False | Some b \<Rightarrow> b)"

text \<open>\<^verbatim>\<open>password += v\<close>: an \<^verbatim>\<open>undefined\<close> operand is appended as the text "undefined".\<close>

definition append_js :: "string \<Rightarrow> jsstring \<Rightarrow> string" where
  "append_js password v = (case v of Str s \<Rightarrow> password @ s | Undefined \<Rightarrow> password @ ''undefined'')"

text \<open>
  \<^verbatim>\<open>String.fromCharCode(n)\<close>, on the 8-bit characters of \<open>string\<close> (the code units this
  program builds are 97 to 122).
\<close>

definition fromCharCode :: "int \<Rightarrow> string" where
  "fromCharCode n = [char_of n]"

text \<open>\<^verbatim>\<open>s.toUpperCase()\<close> on ASCII text.\<close>

definition toUpperCase :: "string \<Rightarrow> string" where
  "toUpperCase s =
     map (\<lambda>c. if 97 \<le> (of_char c :: nat) \<and> (of_char c :: nat) \<le> 122
              then char_of ((of_char c :: nat) - 32) else c) s"

text \<open>\<^verbatim>\<open>n.toString()\<close> of an integer: its decimal digits.\<close>

fun digits :: "nat \<Rightarrow> string" where
  "digits n = (if n < 10 then [char_of (48 + n)] else digits (n div 10) @ [char_of (48 + n mod 10)])"

declare digits.simps [simp del]

definition toString :: "int \<Rightarrow> string" where
  "toString n = (if n < 0 then CHR ''-'' # digits (nat (- n)) else digits (nat n))"

text \<open>\<^verbatim>\<open>classList.add(c)\<close>: the class is appended unless the list has it already.\<close>

definition classList_add :: "string \<Rightarrow> string list \<Rightarrow> string list" where
  "classList_add c cs = (if c \<in> set cs then cs else cs @ [c])"

subsection \<open>The strength table\<close>

record StrengthProb =
  number :: int
  symbol :: int
  letter :: int
  barColor :: string

definition strengthProbs :: "StrengthProb list" where
  "strengthProbs =
    [\<lparr>number = 90, symbol = 5, letter = 100, barColor = ''green''\<rparr>,
     \<lparr>number = 80, symbol = 20, letter = 75, barColor = ''yellow''\<rparr>,
     \<lparr>number = 60, symbol = 40, letter = 30, barColor = ''orange''\<rparr>,
     \<lparr>number = 10, symbol = 80, letter = 10, barColor = ''red''\<rparr>]"

subsection \<open>The generator and the part of the page it writes\<close>

text \<open>
  A strength bar of the page: \<open>parsedValue\<close> is \<^verbatim>\<open>parseInt(asInput.value)\<close>, \<open>None\<close> when
  that is \<^verbatim>\<open>NaN\<close>; \<open>backgroundColor\<close> is \<^verbatim>\<open>asInput.style.backgroundColor\<close>.
\<close>

record Level =
  parsedValue :: "int option"
  backgroundColor :: string

text \<open>
  The elements the modelled methods touch: \<open>passRes\<close> and \<open>strengthDesc\<close> are the
  \<^verbatim>\<open>textContent\<close> of these elements, \<open>passContainer\<close> is the \<^verbatim>\<open>classList\<close> of that one.
\<close>

record DomElements =
  strengthLevels :: "Level list"
  passRes :: string
  strengthDesc :: string
  passContainer :: "string list"

record PasswordGenerator =
  charLength :: int
  domElements :: DomElements
  symbols :: string
  passwordParts :: "bool list"
  strengthTitles :: "string list"
  strength :: int

text \<open>
  The initialiser of the field \<^verbatim>\<open>symbols\<close>. The escapes of the source literal
  \<^verbatim>\<open>"/[!@#$%^&*()_+\-=\[\]{};':\\|,.<>\/?]+/"\<close> denote the characters \<^verbatim>\<open>-\<close>, \<^verbatim>\<open>[\<close>,
  \<^verbatim>\<open>]\<close>, one backslash and \<^verbatim>\<open>/\<close>; the quote is character 39, the backslash 92.
\<close>

definition symbols_init :: string where
  "symbols_init =
     ''/[!@#$%^&*()_+-=[]{};'' @ [char_of (39 :: nat)] @ '':'' @ [char_of (92 :: nat)] @ ''|,.<>/?]+/''"

definition strengthTitles_init :: "string list" where
  "strengthTitles_init = [''WEAK'', ''MEDIUM'', ''STRONG'', ''EXTREME'']"

text \<open>\<^verbatim>\<open>this.passwordParts[k]\<close> read as a condition.\<close>

definition enabled :: "PasswordGenerator \<Rightarrow> int \<Rightarrow> bool" where
  "enabled g k = truthy (js_index (passwordParts g) k)"

subsection \<open>\<^verbatim>\<open>chooseLetter\<close>\<close>

text \<open>
  The loop \<^verbatim>\<open>while (!this.passwordParts[choice]) choice = Math.round(Math.random())\<close>,
  entered with the first \<open>choice\<close> already drawn; \<open>i\<close> is the position of the next draw.
\<close>

partial_function (option) chooseLetter_loop ::
  "PasswordGenerator \<Rightarrow> (nat \<Rightarrow> real) \<Rightarrow> int \<Rightarrow> nat \<Rightarrow> (int \<times> nat) option" where
  "chooseLetter_loop g rnd choice i =
     (if \<not> enabled g choice
      then chooseLetter_loop g rnd (js_round (rnd i)) (Suc i)
      else Some (choice, i))"

definition chooseLetter ::
  "PasswordGenerator \<Rightarrow> (nat \<Rightarrow> real) \<Rightarrow> nat \<Rightarrow> (string \<times> nat) option" where
  "chooseLetter g rnd i =
     (if \<not> enabled g 0 \<and> \<not> enabled g 1 then Some ('''', i)
      else
        (case chooseLetter_loop g rnd (js_round (rnd i)) (Suc i) of
           None \<Rightarrow> None
         | Some (choice, i1) \<Rightarrow>
             (let randomLetter = fromCharCode (97 + js_round (rnd i1 * 25))
              in Some (if choice = 1 then randomLetter else toUpperCase randomLetter, Suc i1))))"

text \<open>
  The same method with its indexed reads of \<^verbatim>\<open>this.passwordParts\<close> written down: each
  evaluation of \<^verbatim>\<open>this.passwordParts[k]\<close> appends \<open>k\<close> to the list of reads. The
  condition of the \<^verbatim>\<open>if\<close> reads index 0 and, \<^verbatim>\<open>&&\<close> evaluating its right operand only
  when the left one holds, index 1 only when the first checkbox is not ticked; each test
  of the \<^verbatim>\<open>while\<close> reads the index \<open>choice\<close>.
\<close>

partial_function (option) chooseLetter_loop_reads ::
  "PasswordGenerator \<Rightarrow> (nat \<Rightarrow> real) \<Rightarrow> int \<Rightarrow> nat \<Rightarrow> int list \<Rightarrow> (int list \<times> int \<times> nat) option" where
  "chooseLetter_loop_reads g rnd choice i reads =
     (if \<not> enabled g choice
      then chooseLetter_loop_reads g rnd (js_round (rnd i)) (Suc i) (reads @ [choice])
      else Some (reads @ [choice], choice, i))"

definition chooseLetter_reads ::
  "PasswordGenerator \<Rightarrow> (nat \<Rightarrow> real) \<Rightarrow> nat \<Rightarrow> (int list \<times> string \<times> nat) option" where
  "chooseLetter_reads g rnd i =
     (if \<not> enabled g 0 \<and> \<not> enabled g 1 then Some ([0, 1], '''', i)
      else
        (case chooseLetter_loop_reads g rnd (js_round (rnd i)) (Suc i)
                (if enabled g 0 then [0] else [0, 1]) of
           None \<Rightarrow> None
         | Some (reads, choice, i1) \<Rightarrow>
             (let randomLetter = fromCharCode (97 + js_round (rnd i1 * 25))
              in Some (reads, if choice = 1 then randomLetter else toUpperCase randomLetter, Suc i1))))"

subsection \<open>\<^verbatim>\<open>chooseNumOrSymbol\<close>\<close>

text \<open>
  The loop \<^verbatim>\<open>while (true)\<close>: one draw, then the test that leaves the loop. The test reads
  \<^verbatim>\<open>strengthProbs[this.strength].symbol\<close> first, which throws when the strength is no
  index of the table.
\<close>

partial_function (option) chooseNumOrSymbol_loop ::
  "PasswordGenerator \<Rightarrow> (nat \<Rightarrow> real) \<Rightarrow> nat \<Rightarrow> (error + int \<times> nat) option" where
  "chooseNumOrSymbol_loop g rnd i =
     (let choice = js_round (rnd i * 99) in
      case js_index strengthProbs (strength g) of
        None \<Rightarrow> Some (Inl TypeError)
      | Some p \<Rightarrow>
          if (choice \<le> symbol p \<and> enabled g 3) \<or> (choice > symbol p \<and> enabled g 2)
          then Some (Inr (choice, Suc i))
          else chooseNumOrSymbol_loop g rnd (Suc i))"

text \<open>The statements after the loop: the accepted \<open>choice\<close> selects a symbol or a digit.\<close>

definition chooseNumOrSymbol_emit ::
  "PasswordGenerator \<Rightarrow> (nat \<Rightarrow> real) \<Rightarrow> int \<Rightarrow> nat \<Rightarrow> error + jsstring \<times> nat" where
  "chooseNumOrSymbol_emit g rnd choice i =
     (case js_index strengthProbs (strength g) of
        None \<Rightarrow> Inl TypeError
      | Some p \<Rightarrow>
          if choice \<le> symbol p
          then (let symbolIndex = js_round (rnd i * real_of_int (int (length (symbols g)) - 1))
                in Inr (string_index (symbols g) symbolIndex, Suc i))
          else (let randomNum = js_round (rnd i * 9)
                in Inr (Str (toString randomNum), Suc i)))"

text \<open>The first statement draws a value that is never used.\<close>

definition chooseNumOrSymbol ::
  "PasswordGenerator \<Rightarrow> (nat \<Rightarrow> real) \<Rightarrow> nat \<Rightarrow> (error + jsstring \<times> nat) option" where
  "chooseNumOrSymbol g rnd i =
     (if \<not> enabled g 2 \<and> \<not> enabled g 3 then Some (Inr (Str '''', Suc i))
      else
        (case chooseNumOrSymbol_loop g rnd (Suc i) of
           None \<Rightarrow> None
         | Some (Inl e) \<Rightarrow> Some (Inl e)
         | Some (Inr (choice, i1)) \<Rightarrow> Some (chooseNumOrSymbol_emit g rnd choice i1)))"

subsection \<open>\<^verbatim>\<open>generatePassword\<close>\<close>

text \<open>
  The \<^verbatim>\<open>for\<close> loop, by the number of iterations that remain: it starts at
  \<open>nat (charLength g)\<close>, since \<^verbatim>\<open>i\<close> runs from 0 while \<^verbatim>\<open>i < this.charLength\<close>.
\<close>

fun generatePassword_loop ::
  "PasswordGenerator \<Rightarrow> (nat \<Rightarrow> real) \<Rightarrow> nat \<Rightarrow> string \<Rightarrow> nat \<Rightarrow> (error + string \<times> nat) option" where
  "generatePassword_loop g rnd 0 password i = Some (Inr (password, i))"
| "generatePassword_loop g rnd (Suc n) password i =
     (case chooseLetter g rnd i of
        None \<Rightarrow> None
      | Some (letterChosen, i1) \<Rightarrow>
          (case chooseNumOrSymbol g rnd i1 of
             None \<Rightarrow> None
           | Some (Inl e) \<Rightarrow> Some (Inl e)
           | Some (Inr (numOrSymbol, i2)) \<Rightarrow>
               (let choice = js_round (rnd i2 * 99) in
                case js_index strengthProbs (strength g) of
                  None \<Rightarrow> Some (Inl TypeError)
                | Some p \<Rightarrow>
                    if (choice \<le> letter p \<and> letterChosen \<noteq> '''') \<or> numOrSymbol = Str ''''
                    then generatePassword_loop g rnd n (password @ letterChosen) (Suc i2)
                    else generatePassword_loop g rnd n (append_js password numOrSymbol) (Suc i2))))"

text \<open>
  The method shows the password on the page and marks the container. (The timer that
  removes the mark 250 ms later is not part of the call.) A \<^verbatim>\<open>TypeError\<close> leaves the
  loop before anything is written.
\<close>

definition generatePassword ::
  "PasswordGenerator \<Rightarrow> (nat \<Rightarrow> real) \<Rightarrow> nat \<Rightarrow> (error + PasswordGenerator \<times> nat) option" where
  "generatePassword g rnd i =
     (case generatePassword_loop g rnd (nat (charLength g)) '''' i of
        None \<Rightarrow> None
      | Some (Inl e) \<Rightarrow> Some (Inl e)
      | Some (Inr (password, i')) \<Rightarrow>
          Some (Inr (g\<lparr>domElements := (domElements g)
                        \<lparr>passRes := password,
                         passContainer := classList_add ''outputted'' (passContainer (domElements g))\<rparr>\<rparr>,
                     i')))"

subsection \<open>\<^verbatim>\<open>setPasswordStrength\<close>\<close>

text \<open>
  The \<^verbatim>\<open>forEach\<close> over the strength bars, run after the strength is stored. A bar whose
  value is at most the strength reads \<^verbatim>\<open>strengthProbs[this.strength].barColor\<close>, which
  throws when the strength is no index of the table; the bars before it stay coloured.
\<close>

fun colourLevels :: "int \<Rightarrow> Level list \<Rightarrow> Level list \<times> error option" where
  "colourLevels s [] = ([], None)"
| "colourLevels s (level # rest) =
     (if (case parsedValue level of None \<Rightarrow> False | Some v \<Rightarrow> v \<le> s)
      then (case js_index strengthProbs s of
              None \<Rightarrow> (level # rest, Some TypeError)
            | Some p \<Rightarrow>
                (case colourLevels s rest of
                   (rest', e) \<Rightarrow> (level\<lparr>backgroundColor := barColor p\<rparr> # rest', e)))
      else (case colourLevels s rest of
              (rest', e) \<Rightarrow> (level\<lparr>backgroundColor := ''''\<rparr> # rest', e)))"

text \<open>
  The result is the generator after the call and the exception the call ended with, if
  any: the assignments made before a throw stay. Assigning \<^verbatim>\<open>undefined\<close> to
  \<^verbatim>\<open>textContent\<close> empties the text.
\<close>

definition setPasswordStrength :: "PasswordGenerator \<Rightarrow> int \<Rightarrow> PasswordGenerator \<times> error option" where
  "setPasswordStrength g s =
     (let d1 = (domElements g)
                 \<lparr>strengthDesc := (case js_index (strengthTitles g) s of None \<Rightarrow> '''' | Some t \<Rightarrow> t)\<rparr>;
          g1 = g\<lparr>domElements := d1, strength := s\<rparr>
      in case colourLevels (strength g1) (strengthLevels d1) of
           (levels, e) \<Rightarrow> (g1\<lparr>domElements := d1\<lparr>strengthLevels := levels\<rparr>\<rparr>, e))"

declare chooseLetter_loop.simps [code]
declare chooseLetter_loop_reads.simps [code]
declare chooseNumOrSymbol_loop.simps [code]

subsection \<open>Notions the properties are stated with\<close>

text \<open>
  \<^verbatim>\<open>Math.random()\<close> returns a number in \<open>[0, 1)\<close>: the draws of a run are valid when
  each of them does.
\<close>

definition valid_draws :: "(nat \<Rightarrow> real) \<Rightarrow> bool" where
  "valid_draws rnd \<longleftrightarrow> (\<forall>i. 0 \<le> rnd i \<and> rnd i < 1)"

text \<open>The strength is one of the four members of the enumeration \<^verbatim>\<open>PasswordStrengths\<close>.\<close>

definition valid_strength :: "PasswordGenerator \<Rightarrow> bool" where
  "valid_strength g \<longleftrightarrow> strength g \<in> {0, 1, 2, 3}"

text \<open>The character classes, by ASCII code.\<close>

definition is_upper :: "char \<Rightarrow> bool" where
  "is_upper c \<longleftrightarrow> 65 \<le> (of_char c :: nat) \<and> (of_char c :: nat) \<le> 90"

definition is_lower :: "char \<Rightarrow> bool" where
  "is_lower c \<longleftrightarrow> 97 \<le> (of_char c :: nat) \<and> (of_char c :: nat) \<le> 122"

definition is_letter :: "char \<Rightarrow> bool" where
  "is_letter c \<longleftrightarrow> is_upper c \<or> is_lower c"

definition is_digit :: "char \<Rightarrow> bool" where
  "is_digit c \<longleftrightarrow> 48 \<le> (of_char c :: nat) \<and> (of_char c :: nat) \<le> 57"

definition is_symbol :: "char \<Rightarrow> bool" where
  "is_symbol c \<longleftrightarrow> c \<in> set symbols_init"

text \<open>The character belongs to a class whose checkbox is ticked.\<close>

definition class_of_char :: "PasswordGenerator \<Rightarrow> char \<Rightarrow> bool" where
  "class_of_char g c \<longleftrightarrow>
     (is_upper c \<and> enabled g 0) \<or> (is_lower c \<and> enabled g 1) \<or>
     (is_digit c \<and> enabled g 2) \<or> (is_symbol c \<and> enabled g 3)"

text \<open>
  The draws that let a sampling loop go: for \<^verbatim>\<open>chooseLetter\<close> the case drawn is ticked,
  for \<^verbatim>\<open>chooseNumOrSymbol\<close> the test of the loop holds (or throws).
\<close>

definition letterAccepted :: "PasswordGenerator \<Rightarrow> real \<Rightarrow> bool" where
  "letterAccepted g x \<longleftrightarrow> enabled g (js_round x)"

definition numOrSymbolAccepted :: "PasswordGenerator \<Rightarrow> real \<Rightarrow> bool" where
  "numOrSymbolAccepted g x \<longleftrightarrow>
     (case js_index strengthProbs (strength g) of
        None \<Rightarrow> True
      | Some p \<Rightarrow> (js_round (x * 99) \<le> symbol p \<and> enabled g 3) \<or>
                  (js_round (x * 99) > symbol p \<and> enabled g 2))"

text \<open>
  A sequence of draws is fair to a generator when, for each loop the generator can
  enter, accepted draws keep occurring.
\<close>

definition fair_draws :: "PasswordGenerator \<Rightarrow> (nat \<Rightarrow> real) \<Rightarrow> bool" where
  "fair_draws g rnd \<longleftrightarrow>
     (enabled g 0 \<or> enabled g 1 \<longrightarrow> (\<forall>i. \<exists>j\<ge>i. letterAccepted g (rnd j))) \<and>
     (enabled g 2 \<or> enabled g 3 \<longrightarrow> (\<forall>i. \<exists>j\<ge>i. numOrSymbolAccepted g (rnd j)))"

text \<open>
  Position \<open>j\<close> holds the first draw from position \<open>i\<close> on that has the property \<open>P\<close>.
\<close>

definition first_accepted :: "(real \<Rightarrow> bool) \<Rightarrow> (nat \<Rightarrow> real) \<Rightarrow> nat \<Rightarrow> nat \<Rightarrow> bool" where
  "first_accepted P rnd i j \<longleftrightarrow> i \<le> j \<and> P (rnd j) \<and> (\<forall>k. i \<le> k \<and> k < j \<longrightarrow> \<not> P (rnd k))"

text \<open>
  The text \<^verbatim>\<open>chooseNumOrSymbol\<close> returns for an accepted \<open>choice\<close> when the draw that
  follows is \<open>x\<close>.
\<close>

definition emitted :: "PasswordGenerator \<Rightarrow> int \<Rightarrow> real \<Rightarrow> jsstring" where
  "emitted g choice x =
     (case chooseNumOrSymbol_emit g (\<lambda>_. x) choice 0 of
        Inl e \<Rightarrow> Undefined
      | Inr (v, i) \<Rightarrow> v)"

text \<open>
  The valid draws on which a function of one draw takes a given value. A value is chosen
  uniformly among \<open>n\<close> when each is taken on an interval of draws of length \<open>1 / n\<close>.
\<close>

definition draws_giving :: "(real \<Rightarrow> 'a) \<Rightarrow> 'a \<Rightarrow> real set" where
  "draws_giving f v = {x. 0 \<le> x \<and> x < 1 \<and> f x = v}"

definition chosen_uniformly :: "(real \<Rightarrow> 'a) \<Rightarrow> 'a list \<Rightarrow> bool" where
  "chosen_uniformly f vs \<longleftrightarrow>
     (\<forall>v\<in>set vs. \<exists>a. draws_giving f v = {a..<a + 1 / real (length vs)})"

text \<open>
  The draws below this bound are those for which the rejection loop, with numbers and
  symbols both ticked, selects a symbol: the length of that interval of \<open>[0, 1)\<close>.
\<close>

definition symbolThreshold :: "int \<Rightarrow> real" where
  "symbolThreshold s =
     (case js_index strengthProbs s of
        None \<Rightarrow> 0
      | Some p \<Rightarrow> (2 * real_of_int (symbol p) + 1) / 198)"

text \<open>
  \<^verbatim>\<open>chooseNumOrSymbol\<close> returns a symbol when each of its draws is \<open>x\<close>. With numbers and
  symbols both ticked the first draw of the loop is accepted, and it alone decides between
  a symbol and a digit.
\<close>

definition symbolChosen :: "PasswordGenerator \<Rightarrow> real \<Rightarrow> bool" where
  "symbolChosen g x \<longleftrightarrow>
     (case chooseNumOrSymbol g (\<lambda>_. x) 0 of
        Some (Inr (Str [c], i)) \<Rightarrow> is_symbol c
      | _ \<Rightarrow> False)"

text \<open>
  The share of the \<open>N\<close> equally spaced draws \<open>0, 1/N, \<dots>, (N - 1)/N\<close> that have a
  property: for a draw uniform on \<open>[0, 1)\<close>, the probability of the property is the limit
  of this share.
\<close>

definition share_of_draws :: "(real \<Rightarrow> bool) \<Rightarrow> nat \<Rightarrow> real" where
  "share_of_draws P N = real (length (filter (\<lambda>j. P (real j / real N)) [0..<N])) / real N"

subsection \<open>Example runs\<close>

definition constant_draws :: "real \<Rightarrow> nat \<Rightarrow> real" where
  "constant_draws x = (\<lambda>_. x)"

definition cycle_draws :: "real list \<Rightarrow> nat \<Rightarrow> real" where
  "cycle_draws xs = (\<lambda>i. xs ! (i mod length xs))"

text \<open>
  A generator as the constructor leaves it on a page with four strength bars of values
  0 to 3: strength \<^verbatim>\<open>medium\<close>, length 7, and the given checkboxes.
\<close>

definition example_dom :: DomElements where
  "example_dom =
     \<lparr>strengthLevels =
        [\<lparr>parsedValue = Some 0, backgroundColor = ''yellow''\<rparr>,
         \<lparr>parsedValue = Some 1, backgroundColor = ''yellow''\<rparr>,
         \<lparr>parsedValue = Some 2, backgroundColor = ''''\<rparr>,
         \<lparr>parsedValue = Some 3, backgroundColor = ''''\<rparr>],
      passRes = '''', strengthDesc = ''MEDIUM'', passContainer = []\<rparr>"

definition example_generator :: "bool list \<Rightarrow> PasswordGenerator" where
  "example_generator boxes =
     \<lparr>charLength = 7, domElements = example_dom, symbols = symbols_init,
      passwordParts = boxes, strengthTitles = strengthTitles_init, strength = 1\<rparr>"

text \<open>The same generator after its strength has been set to \<open>s\<close>.\<close>

definition example_generator_at :: "int \<Rightarrow> bool list \<Rightarrow> PasswordGenerator" where
  "example_generator_at s boxes = (example_generator boxes)\<lparr>strength := s\<rparr>"

section \<open>Lemmas\<close>

subsection \<open>Rounding\<close>

lemma js_round_range:
  assumes "0 \<le> x" "x < 1" "0 \<le> k"
  shows "0 \<le> js_round (x * real_of_int k) \<and> js_round (x * real_of_int k) \<le> k"
proof -
  have "x * real_of_int k \<le> real_of_int k"
    using assms by (simp add: mult_left_le_one_le)
  then have "x * real_of_int k + 1 / 2 < real_of_int k + 1" by simp
  then have "js_round (x * real_of_int k) \<le> k"
    unfolding js_round_def by (simp add: floor_le_iff)
  moreover have "0 \<le> x * real_of_int k + 1 / 2" using assms by simp
  then have "0 \<le> js_round (x * real_of_int k)"
    unfolding js_round_def by simp
  ultimately show ?thesis by simp
qed

lemma js_round_unit: "0 \<le> x \<Longrightarrow> x < 1 \<Longrightarrow> js_round x = 0 \<or> js_round x = 1"
  using js_round_range [of x 1] by auto

lemma js_round_le_iff: "js_round (x * 99) \<le> k \<longleftrightarrow> x < (2 * real_of_int k + 1) / 198"
  unfolding js_round_def by (simp add: floor_le_iff field_simps)

lemma js_round_reaches:
  assumes "0 \<le> k" "k \<le> n"
  shows "\<exists>x. 0 \<le> x \<and> x < 1 \<and> js_round (x * real_of_int n) = k"
proof -
  define x where "x = (4 * real_of_int k + 1) / (4 * real_of_int n + 2)"
  have n: "0 < 4 * real_of_int n + 2" using assms by simp
  have 0: "0 \<le> x" using assms by (simp add: x_def)
  have 1: "x < 1" using assms by (simp add: x_def)
  have "x * real_of_int n + 1 / 2 - real_of_int k =
      (3 * real_of_int n + 1 - 2 * real_of_int k) / (4 * real_of_int n + 2)"
    using n by (simp add: x_def field_simps)
  moreover have "0 \<le> (3 * real_of_int n + 1 - 2 * real_of_int k) / (4 * real_of_int n + 2)"
    using assms by simp
  moreover have "(3 * real_of_int n + 1 - 2 * real_of_int k) / (4 * real_of_int n + 2) < 1"
    using assms by simp
  ultimately have "real_of_int k \<le> x * real_of_int n + 1 / 2"
    and "x * real_of_int n + 1 / 2 < real_of_int k + 1" by linarith+
  then have "js_round (x * real_of_int n) = k"
    unfolding js_round_def by (intro floor_unique) simp_all
  with 0 1 show ?thesis by blast
qed

subsection \<open>Characters and the strength table\<close>

lemma of_char_char_of_int:
  assumes "0 \<le> n" "n < 256"
  shows "(of_char (char_of (n::int)) :: nat) = nat n"
proof -
  have "(of_char (char_of n) :: nat) = nat (of_char (char_of n) :: int)"
    by (simp only: nat_of_char)
  also have "\<dots> = nat (n mod 256)" by (simp only: of_char_of)
  also have "\<dots> = nat n" using assms by simp
  finally show ?thesis .
qed

lemma of_char_char_of_nat:
  assumes "n < 256"
  shows "(of_char (char_of (n::nat)) :: nat) = n"
  using assms by simp

lemma fromCharCode_lower:
  assumes "0 \<le> k" "k \<le> 25"
  shows "\<exists>c. fromCharCode (97 + k) = [c] \<and> is_lower c"
proof -
  have "(of_char (char_of (97 + k)) :: nat) = nat (97 + k)"
    using assms by (intro of_char_char_of_int) auto
  moreover have "97 \<le> nat (97 + k) \<and> nat (97 + k) \<le> 122" using assms by arith
  ultimately show ?thesis by (simp add: fromCharCode_def is_lower_def)
qed

lemma toUpperCase_upper:
  assumes "0 \<le> k" "k \<le> 25"
  shows "\<exists>c. toUpperCase (fromCharCode (97 + k)) = [c] \<and> is_upper c"
proof -
  have n: "(of_char (char_of (97 + k)) :: nat) = nat (97 + k)"
    using assms by (intro of_char_char_of_int) auto
  have "nat (97 + k) - 32 < 256" using assms by simp
  then have "(of_char (char_of (nat (97 + k) - 32)) :: nat) = nat (97 + k) - 32"
    by (rule of_char_char_of_nat)
  moreover have "97 \<le> nat (97 + k) \<and> nat (97 + k) \<le> 122 \<and>
      65 \<le> nat (97 + k) - 32 \<and> nat (97 + k) - 32 \<le> 90" using assms by arith
  ultimately show ?thesis using n
    by (simp add: fromCharCode_def toUpperCase_def is_upper_def)
qed

lemma toString_digit:
  assumes "0 \<le> d" "d \<le> 9"
  shows "\<exists>c. toString d = [c] \<and> is_digit c"
proof -
  have "nat d < 10" using assms by simp
  then have "digits (nat d) = [char_of (48 + nat d)]" by (simp add: digits.simps)
  moreover have "(of_char (char_of (48 + nat d)) :: nat) = 48 + nat d"
    using assms by (intro of_char_char_of_nat) simp
  ultimately show ?thesis using assms by (simp add: toString_def is_digit_def)
qed

lemma toString_digit_code:
  assumes "0 \<le> d" "d \<le> 9"
  shows "\<exists>c. toString d = [c] \<and> is_digit c \<and> (of_char c :: nat) = 48 + nat d"
proof -
  have "nat d < 10" using assms by simp
  then have "digits (nat d) = [char_of (48 + nat d)]" by (simp add: digits.simps)
  moreover have "(of_char (char_of (48 + nat d)) :: nat) = 48 + nat d"
    using assms by (intro of_char_char_of_nat) simp
  ultimately show ?thesis using assms by (simp add: toString_def is_digit_def)
qed

lemma string_index_symbol:
  assumes "0 \<le> k" "k \<le> 33"
  shows "\<exists>c. string_index symbols_init k = Str [c] \<and> is_symbol c"
proof -
  have len: "length symbols_init = 34" by (simp add: symbols_init_def)
  with assms have "nat k < length symbols_init" by simp
  then have "symbols_init ! nat k \<in> set symbols_init" by (rule nth_mem)
  with assms len show ?thesis by (simp add: string_index_def is_symbol_def)
qed

lemma symbols_init_codes:
  "map of_char symbols_init =
     [47, 91, 33, 64, 35, 36, 37, 94, 38, 42, 40, 41, 95, 43, 45, 61, 91, 93, 123, 125, 59,
      39, 58, 92, 124, 44, 46, 60, 62, 47, 63, 93, 43, 47 :: nat]"
  by (simp add: symbols_init_def)

lemma digit_not_letter: "is_digit c \<Longrightarrow> \<not> is_letter c"
  by (auto simp: is_digit_def is_letter_def is_upper_def is_lower_def)

lemma symbol_not_letter: "is_symbol c \<Longrightarrow> \<not> is_letter c"
  by (auto simp: is_symbol_def symbols_init_def is_letter_def is_upper_def is_lower_def)

lemma symbol_not_digit: "is_symbol c \<Longrightarrow> \<not> is_digit c"
  by (auto simp: is_symbol_def symbols_init_def is_digit_def)

lemma valid_strength_profile:
  assumes "valid_strength g"
  shows "\<exists>p. js_index strengthProbs (strength g) = Some p \<and> symbol p \<in> {5, 20, 40, 80}
           \<and> letter p \<in> {100, 75, 30, 10}"
  using assms by (auto simp: valid_strength_def js_index_def strengthProbs_def)

lemma js_index_strengthProbs_None: "js_index strengthProbs s = None \<longleftrightarrow> s \<notin> {0, 1, 2, 3}"
  by (auto simp: js_index_def strengthProbs_def)

lemma symbolThreshold_profile:
  assumes "js_index strengthProbs s = Some p"
  shows "js_round (x * 99) \<le> symbol p \<longleftrightarrow> x < symbolThreshold s"
  using assms by (simp add: symbolThreshold_def js_round_le_iff)

lemma symbolThreshold_values:
  "symbolThreshold 0 = 1 / 18" "symbolThreshold 1 = 41 / 198"
  "symbolThreshold 2 = 9 / 22" "symbolThreshold 3 = 161 / 198"
  by (simp_all add: symbolThreshold_def js_index_def strengthProbs_def)

subsection \<open>The sampling loops\<close>

lemma chooseLetter_loop_Some:
  assumes "chooseLetter_loop g rnd choice i = Some r"
  shows "enabled g (fst r) \<and> i \<le> snd r \<and> (fst r = choice \<or> (\<exists>k. fst r = js_round (rnd k)))"
proof (rule chooseLetter_loop.raw_induct [OF _ assms], goal_cases)
  case (1 loop g rnd choice i r)
  show ?case
  proof (cases "enabled g choice")
    case True
    with 1(2) show ?thesis by auto
  next
    case False
    with 1(2) have "loop g rnd (js_round (rnd i)) (Suc i) = Some r" by simp
    from 1(1) [OF this] show ?thesis by auto
  qed
qed

lemma chooseLetter_loop_terminates:
  assumes "letterAccepted g (rnd j)" "i \<le> j"
  shows "chooseLetter_loop g rnd choice i \<noteq> None"
  using assms
proof (induction "j - i" arbitrary: i choice)
  case 0
  then have ij: "i = j" by simp
  show ?case
  proof (cases "enabled g choice")
    case True
    then show ?thesis by (subst chooseLetter_loop.simps) simp
  next
    case False
    have "chooseLetter_loop g rnd (js_round (rnd j)) (Suc j) \<noteq> None"
      using 0(2) by (subst chooseLetter_loop.simps) (simp add: letterAccepted_def)
    with False ij show ?thesis by (subst chooseLetter_loop.simps) simp
  qed
next
  case (Suc d)
  show ?case
  proof (cases "enabled g choice")
    case True
    then show ?thesis by (subst chooseLetter_loop.simps) simp
  next
    case False
    have "chooseLetter_loop g rnd (js_round (rnd i)) (Suc i) \<noteq> None"
      using Suc by (intro Suc(1)) auto
    with False show ?thesis by (subst chooseLetter_loop.simps) simp
  qed
qed

lemma chooseLetter_loop_None:
  assumes "\<not> enabled g choice" "\<forall>j\<ge>i. \<not> letterAccepted g (rnd j)"
  shows "chooseLetter_loop g rnd choice i = None"
proof (rule ccontr)
  assume "chooseLetter_loop g rnd choice i \<noteq> None"
  then obtain r where r: "chooseLetter_loop g rnd choice i = Some r" by auto
  have "\<not> (\<not> enabled g choice \<and> (\<forall>j\<ge>i. \<not> letterAccepted g (rnd j)))"
  proof (rule chooseLetter_loop.raw_induct [OF _ r], goal_cases)
    case (1 loop g rnd choice i r)
    show ?case
    proof
      assume a: "\<not> enabled g choice \<and> (\<forall>j\<ge>i. \<not> letterAccepted g (rnd j))"
      with 1(2) have s: "loop g rnd (js_round (rnd i)) (Suc i) = Some r" by simp
      from a have "\<not> enabled g (js_round (rnd i))" by (auto simp: letterAccepted_def)
      moreover from a have "\<forall>j\<ge>Suc i. \<not> letterAccepted g (rnd j)" by auto
      ultimately show False using 1(1) [OF s] by simp
    qed
  qed
  with assms show False by simp
qed

lemma chooseLetter_loop_terminates_iff:
  "chooseLetter_loop g rnd choice i \<noteq> None \<longleftrightarrow>
     enabled g choice \<or> (\<exists>j\<ge>i. letterAccepted g (rnd j))"
proof
  assume t: "chooseLetter_loop g rnd choice i \<noteq> None"
  show "enabled g choice \<or> (\<exists>j\<ge>i. letterAccepted g (rnd j))"
  proof (rule ccontr)
    assume "\<not> (enabled g choice \<or> (\<exists>j\<ge>i. letterAccepted g (rnd j)))"
    then have "\<not> enabled g choice" "\<forall>j\<ge>i. \<not> letterAccepted g (rnd j)" by simp_all
    then have "chooseLetter_loop g rnd choice i = None" by (rule chooseLetter_loop_None)
    with t show False by simp
  qed
next
  assume "enabled g choice \<or> (\<exists>j\<ge>i. letterAccepted g (rnd j))"
  then show "chooseLetter_loop g rnd choice i \<noteq> None"
  proof
    assume "enabled g choice"
    then show ?thesis by (subst chooseLetter_loop.simps) simp
  next
    assume "\<exists>j\<ge>i. letterAccepted g (rnd j)"
    then obtain j where "i \<le> j" "letterAccepted g (rnd j)" by blast
    then show ?thesis using chooseLetter_loop_terminates [of g rnd j i choice] by simp
  qed
qed

lemma chooseNumOrSymbol_loop_Some:
  assumes "chooseNumOrSymbol_loop g rnd i = Some r"
  shows "case r of
           Inl e \<Rightarrow> js_index strengthProbs (strength g) = None
         | Inr (choice, i') \<Rightarrow>
             (\<exists>k\<ge>i. i' = Suc k \<and> choice = js_round (rnd k * 99) \<and> numOrSymbolAccepted g (rnd k)) \<and>
             js_index strengthProbs (strength g) \<noteq> None"
proof (rule chooseNumOrSymbol_loop.raw_induct [OF _ assms], goal_cases)
  case (1 loop g rnd i r)
  show ?case
  proof (cases "js_index strengthProbs (strength g)")
    case None
    with 1(2) show ?thesis by auto
  next
    case (Some p)
    show ?thesis
    proof (cases "numOrSymbolAccepted g (rnd i)")
      case True
      with 1(2) Some show ?thesis
        by (auto simp: numOrSymbolAccepted_def Let_def)
    next
      case False
      with 1(2) Some have "loop g rnd (Suc i) = Some r"
        by (auto simp: numOrSymbolAccepted_def Let_def split: if_splits)
      from 1(1) [OF this] Some show ?thesis
        by (auto split: sum.splits dest: Suc_leD)
    qed
  qed
qed

lemma chooseNumOrSymbol_loop_accept:
  assumes "numOrSymbolAccepted g (rnd i)"
  shows "chooseNumOrSymbol_loop g rnd i \<noteq> None"
  using assms
  by (subst chooseNumOrSymbol_loop.simps)
     (auto simp: numOrSymbolAccepted_def Let_def split: option.splits)

lemma chooseNumOrSymbol_loop_reject:
  assumes "\<not> numOrSymbolAccepted g (rnd i)"
  shows "chooseNumOrSymbol_loop g rnd i = chooseNumOrSymbol_loop g rnd (Suc i)"
  using assms
  by (subst chooseNumOrSymbol_loop.simps)
     (auto simp: numOrSymbolAccepted_def Let_def split: option.splits)

lemma chooseNumOrSymbol_loop_terminates:
  assumes "numOrSymbolAccepted g (rnd j)" "i \<le> j"
  shows "chooseNumOrSymbol_loop g rnd i \<noteq> None"
  using assms
proof (induction "j - i" arbitrary: i)
  case 0
  then show ?case using chooseNumOrSymbol_loop_accept by simp
next
  case (Suc d)
  show ?case
  proof (cases "numOrSymbolAccepted g (rnd i)")
    case True
    then show ?thesis by (rule chooseNumOrSymbol_loop_accept)
  next
    case False
    have "chooseNumOrSymbol_loop g rnd (Suc i) \<noteq> None"
      using Suc by (intro Suc(1)) auto
    with False show ?thesis by (simp add: chooseNumOrSymbol_loop_reject)
  qed
qed

lemma chooseNumOrSymbol_loop_None:
  assumes "\<forall>j\<ge>i. \<not> numOrSymbolAccepted g (rnd j)"
  shows "chooseNumOrSymbol_loop g rnd i = None"
proof (rule ccontr)
  assume "chooseNumOrSymbol_loop g rnd i \<noteq> None"
  then obtain r where r: "chooseNumOrSymbol_loop g rnd i = Some r" by auto
  from chooseNumOrSymbol_loop_Some [OF r] assms show False
    by (cases r) (auto simp: numOrSymbolAccepted_def)
qed

lemma chooseNumOrSymbol_loop_terminates_iff:
  "chooseNumOrSymbol_loop g rnd i \<noteq> None \<longleftrightarrow> (\<exists>j\<ge>i. numOrSymbolAccepted g (rnd j))"
proof
  assume t: "chooseNumOrSymbol_loop g rnd i \<noteq> None"
  show "\<exists>j\<ge>i. numOrSymbolAccepted g (rnd j)"
  proof (rule ccontr)
    assume "\<not> (\<exists>j\<ge>i. numOrSymbolAccepted g (rnd j))"
    then have "\<forall>j\<ge>i. \<not> numOrSymbolAccepted g (rnd j)" by simp
    then have "chooseNumOrSymbol_loop g rnd i = None" by (rule chooseNumOrSymbol_loop_None)
    with t show False by simp
  qed
next
  assume "\<exists>j\<ge>i. numOrSymbolAccepted g (rnd j)"
  then obtain j where "i \<le> j" "numOrSymbolAccepted g (rnd j)" by blast
  then show "chooseNumOrSymbol_loop g rnd i \<noteq> None"
    using chooseNumOrSymbol_loop_terminates [of g rnd j i] by simp
qed

lemma letterAccepted_exists:
  assumes "enabled g 0 \<or> enabled g 1"
  shows "\<exists>x. 0 \<le> x \<and> x < 1 \<and> letterAccepted g x"
  using assms
proof
  assume "enabled g 0"
  then have "letterAccepted g 0" by (simp add: letterAccepted_def js_round_def)
  then show ?thesis by (intro exI [of _ 0]) simp
next
  assume "enabled g 1"
  then have "letterAccepted g (1 / 2)" by (simp add: letterAccepted_def js_round_def)
  then show ?thesis by (intro exI [of _ "1 / 2"]) simp
qed

lemma numOrSymbolAccepted_exists:
  assumes "enabled g 2 \<or> enabled g 3"
  shows "\<exists>x. 0 \<le> x \<and> x < 1 \<and> numOrSymbolAccepted g x"
proof (cases "js_index strengthProbs (strength g)")
  case None
  then have "numOrSymbolAccepted g 0" by (simp add: numOrSymbolAccepted_def)
  then show ?thesis by (intro exI [of _ 0]) simp
next
  case (Some p)
  then have "valid_strength g"
    using js_index_strengthProbs_None [of "strength g"] by (simp add: valid_strength_def)
  from valid_strength_profile [OF this] Some have "symbol p \<in> {5, 20, 40, 80}" by simp
  then have p: "0 \<le> symbol p" "symbol p < 99" by auto
  from assms show ?thesis
  proof
    assume "enabled g 3"
    with Some p have "numOrSymbolAccepted g 0" by (simp add: numOrSymbolAccepted_def js_round_def)
    then show ?thesis by (intro exI [of _ 0]) simp
  next
    assume "enabled g 2"
    moreover have "js_round (199 / 200 * 99) = 99" by (simp add: js_round_def)
    ultimately have "numOrSymbolAccepted g (199 / 200)"
      using Some p by (simp add: numOrSymbolAccepted_def)
    then show ?thesis by (intro exI [of _ "199 / 200"]) simp
  qed
qed

subsection \<open>What \<^verbatim>\<open>chooseLetter\<close> and \<^verbatim>\<open>chooseNumOrSymbol\<close> return\<close>

lemma chooseLetter_Some:
  assumes v: "valid_draws rnd" and r: "chooseLetter g rnd i = Some (l, i')"
  shows "(\<not> enabled g 0 \<and> \<not> enabled g 1 \<longrightarrow> l = '''') \<and>
         (enabled g 0 \<or> enabled g 1 \<longrightarrow>
            (\<exists>c. l = [c] \<and> (is_upper c \<and> enabled g 0 \<or> is_lower c \<and> enabled g 1)))"
proof (cases "\<not> enabled g 0 \<and> \<not> enabled g 1")
  case True
  with r show ?thesis by (simp add: chooseLetter_def)
next
  case False
  with r obtain choice i1 where
    lp: "chooseLetter_loop g rnd (js_round (rnd i)) (Suc i) = Some (choice, i1)" and
    l: "l = (if choice = 1 then fromCharCode (97 + js_round (rnd i1 * 25))
             else toUpperCase (fromCharCode (97 + js_round (rnd i1 * 25))))"
    by (auto simp: chooseLetter_def Let_def split: option.splits)
  from chooseLetter_loop_Some [OF lp] have en: "enabled g choice"
    and "\<exists>k. choice = js_round (rnd k)" by auto
  then obtain k where "choice = js_round (rnd k)" by auto
  with v js_round_unit [of "rnd k"] have c01: "choice = 0 \<or> choice = 1"
    by (simp add: valid_draws_def)
  have rg: "0 \<le> js_round (rnd i1 * 25) \<and> js_round (rnd i1 * 25) \<le> 25"
    using v js_round_range [of "rnd i1" 25] by (simp add: valid_draws_def)
  show ?thesis
  proof (cases "choice = 1")
    case True
    with l en fromCharCode_lower [of "js_round (rnd i1 * 25)"] rg False show ?thesis by auto
  next
    case F: False
    with c01 have "choice = 0" by simp
    with l en toUpperCase_upper [of "js_round (rnd i1 * 25)"] rg False show ?thesis by auto
  qed
qed

lemma chooseNumOrSymbol_Some:
  assumes v: "valid_draws rnd" and s: "valid_strength g" and sy: "symbols g = symbols_init"
    and r: "chooseNumOrSymbol g rnd i = Some r"
  shows "\<exists>t i'. r = Inr (Str t, i') \<and>
         (\<not> enabled g 2 \<and> \<not> enabled g 3 \<longrightarrow> t = '''') \<and>
         (enabled g 2 \<or> enabled g 3 \<longrightarrow>
            (\<exists>c. t = [c] \<and> (is_digit c \<and> enabled g 2 \<or> is_symbol c \<and> enabled g 3)))"
proof (cases "\<not> enabled g 2 \<and> \<not> enabled g 3")
  case True
  with r show ?thesis by (auto simp: chooseNumOrSymbol_def)
next
  case False
  from valid_strength_profile [OF s] obtain p where
    p: "js_index strengthProbs (strength g) = Some p" by auto
  from False r obtain lr where lr: "chooseNumOrSymbol_loop g rnd (Suc i) = Some lr"
    by (auto simp: chooseNumOrSymbol_def split: option.splits)
  from chooseNumOrSymbol_loop_Some [OF lr] p obtain choice i1 where
    lr': "lr = Inr (choice, i1)" and
    acc: "\<exists>k. choice = js_round (rnd k * 99) \<and> numOrSymbolAccepted g (rnd k)"
    by (cases lr) auto
  from False r lr lr' have r': "r = chooseNumOrSymbol_emit g rnd choice i1"
    by (auto simp: chooseNumOrSymbol_def)
  from acc p have cond: "(choice \<le> symbol p \<and> enabled g 3) \<or> (choice > symbol p \<and> enabled g 2)"
    by (auto simp: numOrSymbolAccepted_def)
  have len: "length symbols_init = 34" by (simp add: symbols_init_def)
  show ?thesis
  proof (cases "choice \<le> symbol p")
    case True
    have "0 \<le> js_round (rnd i1 * 33) \<and> js_round (rnd i1 * 33) \<le> 33"
      using v js_round_range [of "rnd i1" 33] by (simp add: valid_draws_def)
    from string_index_symbol [of "js_round (rnd i1 * 33)"] this True cond r' p sy len False
    show ?thesis by (auto simp: chooseNumOrSymbol_emit_def)
  next
    case F: False
    have "0 \<le> js_round (rnd i1 * 9) \<and> js_round (rnd i1 * 9) \<le> 9"
      using v js_round_range [of "rnd i1" 9] by (simp add: valid_draws_def)
    from toString_digit [of "js_round (rnd i1 * 9)"] this F cond r' p False
    show ?thesis by (auto simp: chooseNumOrSymbol_emit_def)
  qed
qed

lemma chooseLetter_chars:
  assumes v: "valid_draws rnd" and r: "chooseLetter g rnd i = Some (l, i')"
  shows "(\<forall>c\<in>set l. class_of_char g c \<and> is_letter c) \<and>
         length l = (if enabled g 0 \<or> enabled g 1 then 1 else 0)"
proof (cases "enabled g 0 \<or> enabled g 1")
  case False
  with chooseLetter_Some [OF v r] show ?thesis by simp
next
  case True
  with chooseLetter_Some [OF v r] obtain c where
    "l = [c]" "is_upper c \<and> enabled g 0 \<or> is_lower c \<and> enabled g 1" by blast
  with True show ?thesis by (auto simp: class_of_char_def is_letter_def)
qed

lemma chooseNumOrSymbol_chars:
  assumes v: "valid_draws rnd" and s: "valid_strength g" and sy: "symbols g = symbols_init"
    and r: "chooseNumOrSymbol g rnd i = Some r"
  shows "\<exists>t i'. r = Inr (Str t, i') \<and>
           (\<forall>c\<in>set t. class_of_char g c \<and> (is_digit c \<or> is_symbol c)) \<and>
           length t = (if enabled g 2 \<or> enabled g 3 then 1 else 0)"
proof -
  from chooseNumOrSymbol_Some [OF v s sy r] obtain t i' where
    r': "r = Inr (Str t, i')" and
    t0: "\<not> enabled g 2 \<and> \<not> enabled g 3 \<longrightarrow> t = ''''" and
    t1: "enabled g 2 \<or> enabled g 3 \<longrightarrow>
           (\<exists>c. t = [c] \<and> (is_digit c \<and> enabled g 2 \<or> is_symbol c \<and> enabled g 3))"
    by blast
  have "(\<forall>c\<in>set t. class_of_char g c \<and> (is_digit c \<or> is_symbol c)) \<and>
           length t = (if enabled g 2 \<or> enabled g 3 then 1 else 0)"
  proof (cases "enabled g 2 \<or> enabled g 3")
    case False
    with t0 show ?thesis by simp
  next
    case True
    with t1 obtain c where
      "t = [c]" "is_digit c \<and> enabled g 2 \<or> is_symbol c \<and> enabled g 3" by blast
    with True show ?thesis by (auto simp: class_of_char_def)
  qed
  with r' show ?thesis by blast
qed

lemma chooseLetter_terminates:
  assumes "fair_draws g rnd"
  shows "chooseLetter g rnd i \<noteq> None"
proof (cases "\<not> enabled g 0 \<and> \<not> enabled g 1")
  case True
  then show ?thesis by (simp add: chooseLetter_def)
next
  case False
  with assms obtain j where "j \<ge> Suc i" "letterAccepted g (rnd j)"
    unfolding fair_draws_def by blast
  then have "chooseLetter_loop g rnd (js_round (rnd i)) (Suc i) \<noteq> None"
    by (intro chooseLetter_loop_terminates [of g rnd j]) auto
  with False show ?thesis
    by (auto simp: chooseLetter_def Let_def split: option.splits)
qed

lemma chooseNumOrSymbol_terminates:
  assumes "fair_draws g rnd"
  shows "chooseNumOrSymbol g rnd i \<noteq> None"
proof (cases "\<not> enabled g 2 \<and> \<not> enabled g 3")
  case True
  then show ?thesis by (simp add: chooseNumOrSymbol_def)
next
  case False
  with assms obtain j where "j \<ge> Suc i" "numOrSymbolAccepted g (rnd j)"
    unfolding fair_draws_def by blast
  then have "chooseNumOrSymbol_loop g rnd (Suc i) \<noteq> None"
    by (intro chooseNumOrSymbol_loop_terminates [of g rnd j]) auto
  with False show ?thesis
    by (auto simp: chooseNumOrSymbol_def split: option.splits sum.splits)
qed

subsection \<open>The loop of \<^verbatim>\<open>generatePassword\<close>\<close>

lemma generatePassword_loop_Suc:
  assumes "chooseLetter g rnd i = Some (l, i1)"
    and "chooseNumOrSymbol g rnd i1 = Some (Inr (v, i2))"
    and "js_index strengthProbs (strength g) = Some p"
  shows "generatePassword_loop g rnd (Suc n) password i =
           (if (js_round (rnd i2 * 99) \<le> letter p \<and> l \<noteq> '''') \<or> v = Str ''''
            then generatePassword_loop g rnd n (password @ l) (Suc i2)
            else generatePassword_loop g rnd n (append_js password v) (Suc i2))"
  using assms by (simp add: Let_def)

lemma generatePassword_loop_Suc_throw:
  assumes "chooseLetter g rnd i = Some (l, i1)"
    and "chooseNumOrSymbol g rnd i1 = Some (Inl e)"
  shows "generatePassword_loop g rnd (Suc n) password i = Some (Inl e)"
  using assms by simp

lemma generatePassword_loop_Suc_undefined:
  assumes "chooseLetter g rnd i = Some (l, i1)"
    and "chooseNumOrSymbol g rnd i1 = Some (Inr (v, i2))"
    and "js_index strengthProbs (strength g) = None"
  shows "generatePassword_loop g rnd (Suc n) password i = Some (Inl TypeError)"
  using assms by (simp add: Let_def)

lemma generatePassword_loop_Suc_None:
  assumes "chooseLetter g rnd i = None"
  shows "generatePassword_loop g rnd (Suc n) password i = None"
  using assms by simp

lemma generatePassword_loop_terminates:
  assumes "fair_draws g rnd"
  shows "generatePassword_loop g rnd n password i \<noteq> None"
proof (induction n arbitrary: password i)
  case 0
  show ?case by simp
next
  case (Suc n)
  from chooseLetter_terminates [OF assms] obtain l i1 where
    l: "chooseLetter g rnd i = Some (l, i1)" by fastforce
  from chooseNumOrSymbol_terminates [OF assms] obtain nr where
    nr: "chooseNumOrSymbol g rnd i1 = Some nr" by fastforce
  show ?case
  proof (cases nr)
    case (Inl e)
    with l nr show ?thesis by (simp only: generatePassword_loop_Suc_throw) simp
  next
    case (Inr b)
    then obtain v i2 where nr': "chooseNumOrSymbol g rnd i1 = Some (Inr (v, i2))"
      using nr by (cases b) simp
    show ?thesis
    proof (cases "js_index strengthProbs (strength g)")
      case None
      from generatePassword_loop_Suc_undefined [OF l nr' None] show ?thesis by simp
    next
      case (Some p)
      from generatePassword_loop_Suc [OF l nr' Some] Suc.IH show ?thesis by simp
    qed
  qed
qed

lemma generatePassword_terminates:
  assumes "fair_draws g rnd"
  shows "generatePassword g rnd i \<noteq> None"
proof -
  from generatePassword_loop_terminates [OF assms] obtain r where
    "generatePassword_loop g rnd (nat (charLength g)) '''' i = Some r" by fastforce
  then show ?thesis
    by (cases r) (simp_all add: generatePassword_def split: prod.splits)
qed

lemma generatePassword_loop_Some:
  assumes v: "valid_draws rnd" and s: "valid_strength g" and sy: "symbols g = symbols_init"
    and r: "generatePassword_loop g rnd n password i = Some r"
  shows "\<exists>t i'. r = Inr (password @ t, i') \<and> (\<forall>c\<in>set t. class_of_char g c) \<and>
           (enabled g 0 \<or> enabled g 1 \<or> enabled g 2 \<or> enabled g 3 \<longrightarrow> length t = n)"
  using r
proof (induction n arbitrary: password i)
  case 0
  then have "r = Inr (password @ '''', i)" by simp
  then show ?case by (intro exI [of _ "''''"] exI [of _ i]) simp
next
  case (Suc n)
  obtain l i1 where l: "chooseLetter g rnd i = Some (l, i1)"
  proof (cases "chooseLetter g rnd i")
    case None
    with Suc.prems show ?thesis by simp
  next
    case (Some a)
    with that show ?thesis by (cases a) simp
  qed
  obtain nr where nr: "chooseNumOrSymbol g rnd i1 = Some nr"
  proof (cases "chooseNumOrSymbol g rnd i1")
    case None
    with Suc.prems l show ?thesis by simp
  next
    case (Some a)
    with that show ?thesis by simp
  qed
  from chooseNumOrSymbol_chars [OF v s sy nr] obtain t i2 where
    nr': "nr = Inr (Str t, i2)" and
    tc: "\<forall>c\<in>set t. class_of_char g c" and
    tl: "length t = (if enabled g 2 \<or> enabled g 3 then 1 else 0)"
    by blast
  from chooseLetter_chars [OF v l] have
    lc: "\<forall>c\<in>set l. class_of_char g c" and
    ll: "length l = (if enabled g 0 \<or> enabled g 1 then 1 else 0)"
    by simp_all
  from valid_strength_profile [OF s] obtain p where
    p: "js_index strengthProbs (strength g) = Some p" by blast
  define piece where
    "piece = (if (js_round (rnd i2 * 99) \<le> letter p \<and> l \<noteq> '''') \<or> t = '''' then l else t)"
  have "generatePassword_loop g rnd (Suc n) password i =
          generatePassword_loop g rnd n (password @ piece) (Suc i2)"
    using generatePassword_loop_Suc [OF l nr [unfolded nr'] p]
    by (simp add: piece_def append_js_def)
  with Suc.prems have step: "generatePassword_loop g rnd n (password @ piece) (Suc i2) = Some r"
    by simp
  have pc: "\<forall>c\<in>set piece. class_of_char g c"
    using lc tc by (simp add: piece_def)
  have pl: "enabled g 0 \<or> enabled g 1 \<or> enabled g 2 \<or> enabled g 3 \<longrightarrow> length piece = 1"
  proof (cases "t = ''''")
    case True
    with tl have "\<not> (enabled g 2 \<or> enabled g 3)" by (cases "enabled g 2 \<or> enabled g 3") auto
    with True ll show ?thesis by (auto simp: piece_def)
  next
    case False
    with tl have "length t = 1" by (cases "enabled g 2 \<or> enabled g 3") auto
    moreover have "l \<noteq> '''' \<longrightarrow> length l = 1" using ll by (cases "enabled g 0 \<or> enabled g 1") auto
    ultimately show ?thesis using False by (simp add: piece_def)
  qed
  from Suc.IH [OF step] obtain t' i' where
    r': "r = Inr ((password @ piece) @ t', i')" and tc': "\<forall>c\<in>set t'. class_of_char g c" and
    tl': "enabled g 0 \<or> enabled g 1 \<or> enabled g 2 \<or> enabled g 3 \<longrightarrow> length t' = n"
    by blast
  have "r = Inr (password @ (piece @ t'), i')" using r' by simp
  moreover have "\<forall>c\<in>set (piece @ t'). class_of_char g c" using pc tc' by auto
  moreover have "enabled g 0 \<or> enabled g 1 \<or> enabled g 2 \<or> enabled g 3 \<longrightarrow>
      length (piece @ t') = Suc n" using pl tl' by simp
  ultimately show ?case by blast
qed

lemma generatePassword_Some:
  assumes v: "valid_draws rnd" and s: "valid_strength g" and sy: "symbols g = symbols_init"
    and r: "generatePassword g rnd i = Some r"
  shows "\<exists>t i'. r = Inr (g\<lparr>domElements := (domElements g)
                        \<lparr>passRes := t,
                         passContainer := classList_add ''outputted'' (passContainer (domElements g))\<rparr>\<rparr>, i') \<and>
           (\<forall>c\<in>set t. class_of_char g c) \<and>
           (enabled g 0 \<or> enabled g 1 \<or> enabled g 2 \<or> enabled g 3 \<longrightarrow>
              length t = nat (charLength g))"
proof -
  obtain lr where lr: "generatePassword_loop g rnd (nat (charLength g)) '''' i = Some lr"
    using r by (cases "generatePassword_loop g rnd (nat (charLength g)) '''' i")
      (simp_all add: generatePassword_def)
  from generatePassword_loop_Some [OF v s sy lr] obtain t i' where
    t: "lr = Inr ('''' @ t, i')" "\<forall>c\<in>set t. class_of_char g c"
    "enabled g 0 \<or> enabled g 1 \<or> enabled g 2 \<or> enabled g 3 \<longrightarrow> length t = nat (charLength g)"
    by blast
  from r lr t(1) have "r = Inr (g\<lparr>domElements := (domElements g)
                        \<lparr>passRes := t,
                         passContainer := classList_add ''outputted'' (passContainer (domElements g))\<rparr>\<rparr>, i')"
    by (simp add: generatePassword_def)
  with t(2,3) show ?thesis by blast
qed

lemma generatePassword_loop_disabled:
  assumes s: "valid_strength g"
    and d: "\<not> enabled g 0" "\<not> enabled g 1" "\<not> enabled g 2" "\<not> enabled g 3"
  shows "generatePassword_loop g rnd n password i = Some (Inr (password, i + 2 * n))"
proof (induction n arbitrary: i)
  case 0
  show ?case by simp
next
  case (Suc n)
  from valid_strength_profile [OF s] obtain p where
    p: "js_index strengthProbs (strength g) = Some p" by blast
  have l: "chooseLetter g rnd i = Some ('''', i)" using d by (simp add: chooseLetter_def)
  have ns: "chooseNumOrSymbol g rnd i = Some (Inr (Str '''', Suc i))"
    using d by (simp add: chooseNumOrSymbol_def)
  from generatePassword_loop_Suc [OF l ns p, of n password] Suc.IH [of "Suc (Suc i)"]
  show ?case by simp
qed

lemma generatePassword_loop_numOrSymbol_step:
  assumes v: "valid_draws rnd" and s: "valid_strength g" and sy: "symbols g = symbols_init"
    and e: "\<not> enabled g 0" "\<not> enabled g 1" "enabled g 2" "enabled g 3"
  shows "\<exists>c. generatePassword_loop g rnd (Suc n) password i =
               generatePassword_loop g rnd n (password @ [c]) (i + 4) \<and>
             (is_symbol c \<longleftrightarrow> rnd (Suc i) < symbolThreshold (strength g)) \<and>
             (is_digit c \<longleftrightarrow> \<not> rnd (Suc i) < symbolThreshold (strength g))"
proof -
  from valid_strength_profile [OF s] obtain p where
    p: "js_index strengthProbs (strength g) = Some p" by blast
  have l: "chooseLetter g rnd i = Some ('''', i)" using e by (simp add: chooseLetter_def)
  have lp: "chooseNumOrSymbol_loop g rnd (Suc i) =
      Some (Inr (js_round (rnd (Suc i) * 99), Suc (Suc i)))"
    using p e by (subst chooseNumOrSymbol_loop.simps) (auto simp: Let_def)
  then have ns: "chooseNumOrSymbol g rnd i =
      Some (chooseNumOrSymbol_emit g rnd (js_round (rnd (Suc i) * 99)) (Suc (Suc i)))"
    using e by (simp add: chooseNumOrSymbol_def)
  have d: "0 \<le> rnd (Suc (Suc i))" "rnd (Suc (Suc i)) < 1" using v by (simp_all add: valid_draws_def)
  have i4: "i + 4 = Suc (Suc (Suc (Suc i)))" by simp
  show ?thesis
  proof (cases "rnd (Suc i) < symbolThreshold (strength g)")
    case True
    then have c: "js_round (rnd (Suc i) * 99) \<le> symbol p"
      by (simp add: symbolThreshold_profile [OF p])
    have "0 \<le> js_round (rnd (Suc (Suc i)) * real_of_int 33) \<and>
          js_round (rnd (Suc (Suc i)) * real_of_int 33) \<le> 33"
      using d by (intro js_round_range) simp_all
    with string_index_symbol [of "js_round (rnd (Suc (Suc i)) * 33)"] obtain c' where
      c': "string_index symbols_init (js_round (rnd (Suc (Suc i)) * 33)) = Str [c']" "is_symbol c'"
      by auto
    have len: "length symbols_init = 34" by (simp add: symbols_init_def)
    have "chooseNumOrSymbol g rnd i = Some (Inr (Str [c'], Suc (Suc (Suc i))))"
      using ns c p c'(1) sy len by (simp add: chooseNumOrSymbol_emit_def)
    from generatePassword_loop_Suc [OF l this p, of n password]
    have "generatePassword_loop g rnd (Suc n) password i =
               generatePassword_loop g rnd n (password @ [c']) (i + 4)"
      by (simp add: append_js_def i4 del: generatePassword_loop.simps)
    with c'(2) True symbol_not_digit [of c'] show ?thesis by blast
  next
    case False
    then have c: "\<not> js_round (rnd (Suc i) * 99) \<le> symbol p"
      by (simp add: symbolThreshold_profile [OF p])
    have "0 \<le> js_round (rnd (Suc (Suc i)) * real_of_int 9) \<and>
          js_round (rnd (Suc (Suc i)) * real_of_int 9) \<le> 9"
      using d by (intro js_round_range) simp_all
    with toString_digit [of "js_round (rnd (Suc (Suc i)) * 9)"] obtain c' where
      c': "toString (js_round (rnd (Suc (Suc i)) * 9)) = [c']" "is_digit c'"
      by auto
    have "chooseNumOrSymbol g rnd i = Some (Inr (Str [c'], Suc (Suc (Suc i))))"
      using ns c p c'(1) by (simp add: chooseNumOrSymbol_emit_def)
    from generatePassword_loop_Suc [OF l this p, of n password]
    have "generatePassword_loop g rnd (Suc n) password i =
               generatePassword_loop g rnd n (password @ [c']) (i + 4)"
      by (simp add: append_js_def i4 del: generatePassword_loop.simps)
    with c'(2) False symbol_not_digit [of c'] show ?thesis by blast
  qed
qed

lemma generatePassword_loop_numOrSymbol:
  assumes v: "valid_draws rnd" and s: "valid_strength g" and sy: "symbols g = symbols_init"
    and e: "\<not> enabled g 0" "\<not> enabled g 1" "enabled g 2" "enabled g 3"
  shows "\<exists>t. generatePassword_loop g rnd n password i = Some (Inr (password @ t, i + 4 * n)) \<and>
             length t = n \<and>
             (\<forall>k<n. (is_symbol (t ! k) \<longleftrightarrow> rnd (i + 4 * k + 1) < symbolThreshold (strength g)) \<and>
                    (is_digit (t ! k) \<longleftrightarrow> \<not> rnd (i + 4 * k + 1) < symbolThreshold (strength g)))"
proof (induction n arbitrary: password i)
  case 0
  show ?case by simp
next
  case (Suc n)
  from generatePassword_loop_numOrSymbol_step [OF v s sy e, of n password i] obtain c where
    st: "generatePassword_loop g rnd (Suc n) password i =
           generatePassword_loop g rnd n (password @ [c]) (i + 4)" and
    c: "is_symbol c \<longleftrightarrow> rnd (Suc i) < symbolThreshold (strength g)"
       "is_digit c \<longleftrightarrow> \<not> rnd (Suc i) < symbolThreshold (strength g)"
    by blast
  from Suc.IH [of "password @ [c]" "i + 4"] obtain t where
    t: "generatePassword_loop g rnd n (password @ [c]) (i + 4) =
          Some (Inr ((password @ [c]) @ t, i + 4 + 4 * n))" "length t = n" and
    tk: "\<forall>k<n. (is_symbol (t ! k) \<longleftrightarrow> rnd (i + 4 + 4 * k + 1) < symbolThreshold (strength g)) \<and>
                (is_digit (t ! k) \<longleftrightarrow> \<not> rnd (i + 4 + 4 * k + 1) < symbolThreshold (strength g))"
    by blast
  have 1: "generatePassword_loop g rnd (Suc n) password i =
      Some (Inr (password @ (c # t), i + 4 * Suc n))"
    using st t(1) by simp
  have 2: "length (c # t) = Suc n" using t(2) by simp
  have 3: "(is_symbol ((c # t) ! k) \<longleftrightarrow> rnd (i + 4 * k + 1) < symbolThreshold (strength g)) \<and>
           (is_digit ((c # t) ! k) \<longleftrightarrow> \<not> rnd (i + 4 * k + 1) < symbolThreshold (strength g))"
    if "k < Suc n" for k
  proof (cases k)
    case 0
    with c show ?thesis by simp
  next
    case (Suc k')
    with that have "k' < n" by simp
    with tk have "(is_symbol (t ! k') \<longleftrightarrow> rnd (i + 4 + 4 * k' + 1) < symbolThreshold (strength g)) \<and>
                (is_digit (t ! k') \<longleftrightarrow> \<not> rnd (i + 4 + 4 * k' + 1) < symbolThreshold (strength g))"
      by simp
    moreover have "i + 4 + 4 * k' + 1 = i + 4 * k + 1" using Suc by simp
    ultimately show ?thesis using Suc by simp
  qed
  from 1 2 3 show ?case by blast
qed

subsection \<open>The bars of \<^verbatim>\<open>setPasswordStrength\<close>\<close>

lemma colourLevels_error:
  "snd (colourLevels s levels) =
     (if js_index strengthProbs s = None \<and>
         (\<exists>level\<in>set levels. \<exists>v. parsedValue level = Some v \<and> v \<le> s)
      then Some TypeError else None)"
proof (induction levels)
  case Nil
  show ?case by simp
next
  case (Cons level rest)
  show ?case
  proof (cases "js_index strengthProbs s")
    case None
    with Cons show ?thesis
      by (cases "parsedValue level") (auto simp: split_beta)
  next
    case (Some p)
    with Cons show ?thesis
      by (cases "parsedValue level") (auto simp: split_beta)
  qed
qed

subsection \<open>The example generator and its draws\<close>

lemma valid_draws_cycle:
  assumes "xs \<noteq> []" "\<forall>x\<in>set xs. 0 \<le> x \<and> x < 1"
  shows "valid_draws (cycle_draws xs)"
  using assms by (simp add: valid_draws_def cycle_draws_def)

lemma cycle_draws_recurs:
  assumes "k < length xs" "P (xs ! k)"
  shows "\<forall>i. \<exists>j\<ge>i. P (cycle_draws xs j)"
proof
  fix i
  have "i * length xs + k \<ge> i" using assms(1) by (cases "length xs") auto
  moreover have "cycle_draws xs (i * length xs + k) = xs ! k"
    using assms(1) by (simp add: cycle_draws_def)
  ultimately show "\<exists>j\<ge>i. P (cycle_draws xs j)" using assms(2) by metis
qed

lemma fair_cycle_draws:
  assumes "enabled g 0 \<or> enabled g 1 \<longrightarrow> (\<exists>k<length xs. letterAccepted g (xs ! k))"
    and "enabled g 2 \<or> enabled g 3 \<longrightarrow> (\<exists>k<length xs. numOrSymbolAccepted g (xs ! k))"
  shows "fair_draws g (cycle_draws xs)"
  unfolding fair_draws_def
proof (intro conjI impI)
  assume "enabled g 0 \<or> enabled g 1"
  with assms(1) obtain k where "k < length xs" "letterAccepted g (xs ! k)" by blast
  then show "\<forall>i. \<exists>j\<ge>i. letterAccepted g (cycle_draws xs j)" by (rule cycle_draws_recurs)
next
  assume "enabled g 2 \<or> enabled g 3"
  with assms(2) obtain k where "k < length xs" "numOrSymbolAccepted g (xs ! k)" by blast
  then show "\<forall>i. \<exists>j\<ge>i. numOrSymbolAccepted g (cycle_draws xs j)" by (rule cycle_draws_recurs)
qed

lemma example_enabled:
  "enabled (example_generator [a, b, c, d]) 0 = a"
  "enabled (example_generator [a, b, c, d]) 1 = b"
  "enabled (example_generator [a, b, c, d]) 2 = c"
  "enabled (example_generator [a, b, c, d]) 3 = d"
  by (simp_all add: enabled_def example_generator_def js_index_def truthy_def)

lemma example_profile:
  "js_index strengthProbs (strength (example_generator boxes)) =
     Some \<lparr>number = 80, symbol = 20, letter = 75, barColor = ''yellow''\<rparr>"
  by (simp add: example_generator_def js_index_def strengthProbs_def)

lemma example_wf:
  "valid_strength (example_generator boxes)"
  "symbols (example_generator boxes) = symbols_init"
  "charLength (example_generator boxes) = 7"
  by (simp_all add: valid_strength_def example_generator_def)

lemma example_accepted:
  "letterAccepted (example_generator [a, b, c, d]) (1 / 10) = a"
  "letterAccepted (example_generator [a, b, c, d]) (9 / 10) = b"
  "numOrSymbolAccepted (example_generator [a, b, c, d]) (1 / 10) = d"
  "numOrSymbolAccepted (example_generator [a, b, c, d]) (9 / 10) = c"
  by (simp_all add: letterAccepted_def numOrSymbolAccepted_def example_profile example_enabled
      js_round_def)

lemma example_fair_any:
  "fair_draws (example_generator [a, b, c, d]) (cycle_draws [9 / 10, 1 / 10])"
proof (rule fair_cycle_draws)
  show "enabled (example_generator [a, b, c, d]) 0 \<or> enabled (example_generator [a, b, c, d]) 1 \<longrightarrow>
    (\<exists>k<length [9 / 10, 1 / 10 :: real]. letterAccepted (example_generator [a, b, c, d]) ([9 / 10, 1 / 10] ! k))"
  proof
    assume "enabled (example_generator [a, b, c, d]) 0 \<or> enabled (example_generator [a, b, c, d]) 1"
    then have "a \<or> b" by (simp add: example_enabled)
    then show "\<exists>k<length [9 / 10, 1 / 10 :: real]. letterAccepted (example_generator [a, b, c, d]) ([9 / 10, 1 / 10] ! k)"
    proof
      assume a
      then show ?thesis by (intro exI [of _ 1]) (simp add: example_accepted)
    next
      assume b
      then show ?thesis by (intro exI [of _ 0]) (simp add: example_accepted)
    qed
  qed
  show "enabled (example_generator [a, b, c, d]) 2 \<or> enabled (example_generator [a, b, c, d]) 3 \<longrightarrow>
    (\<exists>k<length [9 / 10, 1 / 10 :: real]. numOrSymbolAccepted (example_generator [a, b, c, d]) ([9 / 10, 1 / 10] ! k))"
  proof
    assume "enabled (example_generator [a, b, c, d]) 2 \<or> enabled (example_generator [a, b, c, d]) 3"
    then have "c \<or> d" by (simp add: example_enabled)
    then show "\<exists>k<length [9 / 10, 1 / 10 :: real]. numOrSymbolAccepted (example_generator [a, b, c, d]) ([9 / 10, 1 / 10] ! k)"
    proof
      assume c
      then show ?thesis by (intro exI [of _ 0]) (simp add: example_accepted)
    next
      assume d
      then show ?thesis by (intro exI [of _ 1]) (simp add: example_accepted)
    qed
  qed
qed

lemma example_valid_draws: "valid_draws (cycle_draws [9 / 10, 1 / 10])"
  by (rule valid_draws_cycle) simp_all

lemma constant_draws_rejected:
  "\<not> enabled (example_generator [True, False, False, False]) (js_round (constant_draws (9 / 10) j))"
  "\<not> letterAccepted (example_generator [True, False, False, False]) (constant_draws (9 / 10) j)"
  "\<not> numOrSymbolAccepted (example_generator [False, False, False, True]) (constant_draws (9 / 10) j)"
  using example_accepted(2) [of True False False False]
    example_accepted(4) [of False False False True]
  by (simp_all add: constant_draws_def letterAccepted_def)

lemma chooseLetter_example_upper: "chooseLetter (example_generator [True, False, True, True]) (cycle_draws [9 / 10, 1 / 10]) 0 = Some (''X'', 3)"
  by code_simp

lemma chooseLetter_example_lower: "chooseLetter (example_generator [False, True, True, True]) (cycle_draws [9 / 10, 1 / 10]) 0 = Some (''d'', 2)"
  by code_simp

lemma example_loop_runs:
  "chooseNumOrSymbol_loop (example_generator [True, True, True, True])
     (cycle_draws [9 / 10, 1 / 10]) 1 = Some (Inr (10, 2))"
  "chooseNumOrSymbol_loop (example_generator [True, True, True, True])
     (cycle_draws [9 / 10, 1 / 10]) 0 = Some (Inr (89, 1))"
  by code_simp+

subsection \<open>The digit a draw gives\<close>

lemma emitted_digit:
  "emitted (example_generator boxes) 99 x = Str (toString (js_round (x * 9)))"
  by (simp add: emitted_def chooseNumOrSymbol_emit_def example_profile)

lemma emitted_digit_eq:
  assumes "0 \<le> x" "x < 1" "0 \<le> d" "d \<le> 9"
  shows "emitted (example_generator boxes) 99 x = Str [char_of (48 + nat d)] \<longleftrightarrow>
           js_round (x * 9) = d"
proof -
  have r: "0 \<le> js_round (x * 9) \<and> js_round (x * 9) \<le> 9"
    using assms js_round_range [of x 9] by simp
  with toString_digit_code [of "js_round (x * 9)"] obtain c where
    c: "toString (js_round (x * 9)) = [c]" "(of_char c :: nat) = 48 + nat (js_round (x * 9))"
    by blast
  have "(of_char (char_of (48 + nat d)) :: nat) = 48 + nat d"
    using assms by (intro of_char_char_of_nat) simp
  then have "c = char_of (48 + nat d) \<longleftrightarrow> 48 + nat (js_round (x * 9)) = 48 + nat d"
    using c(2) by (metis of_char_eq_iff)
  also have "\<dots> \<longleftrightarrow> js_round (x * 9) = d" using r assms by auto
  finally show ?thesis using c(1) by (simp add: emitted_digit)
qed

lemma digit_chars: "char_of (48 + nat 0) = CHR ''0''" "char_of (48 + nat 1) = CHR ''1''"
  by code_simp+

lemma draws_giving_digit_0:
  "draws_giving (emitted (example_generator boxes) 99) (Str ''0'') = {0..<1 / 18}"
proof -
  have "emitted (example_generator boxes) 99 x = Str ''0'' \<longleftrightarrow> x < 1 / 18"
    if "0 \<le> x" "x < 1" for x
  proof -
    have "emitted (example_generator boxes) 99 x = Str ''0'' \<longleftrightarrow> js_round (x * 9) = 0"
      using emitted_digit_eq [OF that, of 0 boxes] by (simp only: digit_chars)
    also have "\<dots> \<longleftrightarrow> x < 1 / 18"
      using that unfolding js_round_def by (auto simp: floor_eq_iff)
    finally show ?thesis .
  qed
  then show ?thesis by (auto simp: draws_giving_def)
qed

lemma draws_giving_digit_1:
  "draws_giving (emitted (example_generator boxes) 99) (Str ''1'') = {1 / 18..<1 / 6}"
proof -
  have "emitted (example_generator boxes) 99 x = Str ''1'' \<longleftrightarrow> 1 / 18 \<le> x \<and> x < 1 / 6"
    if "0 \<le> x" "x < 1" for x
  proof -
    have "emitted (example_generator boxes) 99 x = Str ''1'' \<longleftrightarrow> js_round (x * 9) = 1"
      using emitted_digit_eq [OF that, of 1 boxes] by (simp only: digit_chars)
    also have "\<dots> \<longleftrightarrow> 1 / 18 \<le> x \<and> x < 1 / 6"
      unfolding js_round_def by (auto simp: floor_eq_iff)
    finally show ?thesis .
  qed
  then show ?thesis by (auto simp: draws_giving_def)
qed

subsection \<open>Where the sampling loops stop\<close>

lemma first_accepted_exists:
  assumes "i \<le> j" "P (rnd j)"
  shows "\<exists>j'. first_accepted P rnd i j'"
  using assms
proof (induction j rule: less_induct)
  case (less j)
  show ?case
  proof (cases "\<exists>k. i \<le> k \<and> k < j \<and> P (rnd k)")
    case True
    then obtain k where "k < j" "i \<le> k" "P (rnd k)" by (elim exE conjE)
    then show ?thesis by (rule less.IH)
  next
    case False
    then have "\<forall>k. i \<le> k \<and> k < j \<longrightarrow> \<not> P (rnd k)" by simp
    with less.prems have "first_accepted P rnd i j" by (simp only: first_accepted_def simp_thms)
    then show ?thesis ..
  qed
qed

lemma first_accepted_Suc:
  assumes "first_accepted P rnd i j" "\<not> P (rnd i)"
  shows "first_accepted P rnd (Suc i) j"
proof -
  from assms(1) have j: "i \<le> j" "P (rnd j)" and n: "\<And>k. i \<le> k \<Longrightarrow> k < j \<Longrightarrow> \<not> P (rnd k)"
    by (simp_all add: first_accepted_def)
  from j assms(2) have "i \<noteq> j" by (cases "i = j") simp_all
  with j have "Suc i \<le> j" by simp
  moreover have "\<not> P (rnd k)" if "Suc i \<le> k \<and> k < j" for k
    using that n [of k] by simp
  ultimately show ?thesis using j(2) by (simp add: first_accepted_def)
qed

lemma chooseNumOrSymbol_loop_first:
  assumes "first_accepted (numOrSymbolAccepted g) rnd i j"
  shows "chooseNumOrSymbol_loop g rnd i =
           Some (case js_index strengthProbs (strength g) of
                   None \<Rightarrow> Inl TypeError
                 | Some p \<Rightarrow> Inr (js_round (rnd j * 99), Suc j))"
  using assms
proof (induction "j - i" arbitrary: i)
  case 0
  then have ij: "j = i" and a: "numOrSymbolAccepted g (rnd i)"
    by (auto simp: first_accepted_def)
  from a show ?case unfolding ij
    by (subst chooseNumOrSymbol_loop.simps)
       (auto simp: numOrSymbolAccepted_def Let_def split: option.splits)
next
  case (Suc d)
  then have lt: "i < j" by simp
  with Suc.prems have r: "\<not> numOrSymbolAccepted g (rnd i)" by (auto simp: first_accepted_def)
  from first_accepted_Suc [OF Suc.prems r] Suc.hyps
  have "chooseNumOrSymbol_loop g rnd (Suc i) =
           Some (case js_index strengthProbs (strength g) of
                   None \<Rightarrow> Inl TypeError
                 | Some p \<Rightarrow> Inr (js_round (rnd j * 99), Suc j))"
    by (intro Suc.hyps(1)) auto
  with r show ?case by (simp add: chooseNumOrSymbol_loop_reject)
qed

lemma chooseNumOrSymbol_loop_Some_iff:
  "chooseNumOrSymbol_loop g rnd i = Some r \<longleftrightarrow>
     (\<exists>j. first_accepted (numOrSymbolAccepted g) rnd i j \<and>
          r = (case js_index strengthProbs (strength g) of
                 None \<Rightarrow> Inl TypeError
               | Some p \<Rightarrow> Inr (js_round (rnd j * 99), Suc j)))"
proof
  assume s: "chooseNumOrSymbol_loop g rnd i = Some r"
  then have "chooseNumOrSymbol_loop g rnd i \<noteq> None" by simp
  then have "\<exists>j\<ge>i. numOrSymbolAccepted g (rnd j)"
    by (simp only: chooseNumOrSymbol_loop_terminates_iff)
  then obtain j0 where "i \<le> j0" "numOrSymbolAccepted g (rnd j0)" by (elim exE conjE)
  from first_accepted_exists [of i j0 "numOrSymbolAccepted g" rnd, OF this] obtain j where
    j: "first_accepted (numOrSymbolAccepted g) rnd i j" ..
  from chooseNumOrSymbol_loop_first [OF j] s
  have "r = (case js_index strengthProbs (strength g) of
                 None \<Rightarrow> Inl TypeError
               | Some p \<Rightarrow> Inr (js_round (rnd j * 99), Suc j))" by simp
  with j show "\<exists>j. first_accepted (numOrSymbolAccepted g) rnd i j \<and>
          r = (case js_index strengthProbs (strength g) of
                 None \<Rightarrow> Inl TypeError
               | Some p \<Rightarrow> Inr (js_round (rnd j * 99), Suc j))"
    by (intro exI [of _ j] conjI)
next
  assume "\<exists>j. first_accepted (numOrSymbolAccepted g) rnd i j \<and>
          r = (case js_index strengthProbs (strength g) of
                 None \<Rightarrow> Inl TypeError
               | Some p \<Rightarrow> Inr (js_round (rnd j * 99), Suc j))"
  then obtain j where j: "first_accepted (numOrSymbolAccepted g) rnd i j" and
    r: "r = (case js_index strengthProbs (strength g) of
                 None \<Rightarrow> Inl TypeError
               | Some p \<Rightarrow> Inr (js_round (rnd j * 99), Suc j))" by (elim exE conjE)
  from chooseNumOrSymbol_loop_first [OF j] r show "chooseNumOrSymbol_loop g rnd i = Some r"
    by simp
qed

lemma chooseLetter_loop_enabled:
  assumes "enabled g choice"
  shows "chooseLetter_loop g rnd choice i = Some (choice, i)"
  using assms by (subst chooseLetter_loop.simps) simp

lemma chooseLetter_loop_disabled:
  assumes "\<not> enabled g choice"
  shows "chooseLetter_loop g rnd choice i = chooseLetter_loop g rnd (js_round (rnd i)) (Suc i)"
  using assms by (subst chooseLetter_loop.simps) simp

lemma chooseLetter_loop_first:
  assumes "first_accepted (letterAccepted g) rnd i j" "\<not> enabled g choice"
  shows "chooseLetter_loop g rnd choice i = Some (js_round (rnd j), Suc j)"
  using assms
proof (induction "j - i" arbitrary: i choice)
  case 0
  then have ij: "j = i" and a: "enabled g (js_round (rnd i))"
    by (auto simp: first_accepted_def letterAccepted_def)
  from chooseLetter_loop_disabled [OF 0(3)] chooseLetter_loop_enabled [OF a]
  show ?case unfolding ij by simp
next
  case (Suc d)
  then have lt: "i < j" by simp
  with Suc.prems have r: "\<not> letterAccepted g (rnd i)" by (auto simp: first_accepted_def)
  then have r': "\<not> enabled g (js_round (rnd i))" by (simp add: letterAccepted_def)
  from first_accepted_Suc [OF Suc.prems(1) r] Suc.hyps r'
  have "chooseLetter_loop g rnd (js_round (rnd i)) (Suc i) = Some (js_round (rnd j), Suc j)"
    by (intro Suc.hyps(1)) auto
  with chooseLetter_loop_disabled [OF Suc.prems(2)] show ?case by simp
qed

lemma chooseLetter_loop_Some_iff:
  "chooseLetter_loop g rnd choice i = Some r \<longleftrightarrow>
     (enabled g choice \<and> r = (choice, i)) \<or>
     (\<not> enabled g choice \<and>
        (\<exists>j. first_accepted (letterAccepted g) rnd i j \<and> r = (js_round (rnd j), Suc j)))"
proof (cases "enabled g choice")
  case True
  have e: "chooseLetter_loop g rnd choice i = Some (choice, i)"
    using True by (rule chooseLetter_loop_enabled)
  show ?thesis unfolding e using True by auto
next
  case False
  show ?thesis
  proof
    assume s: "chooseLetter_loop g rnd choice i = Some r"
    then have "chooseLetter_loop g rnd choice i \<noteq> None" by simp
    with False have "\<exists>j\<ge>i. letterAccepted g (rnd j)"
      by (simp only: chooseLetter_loop_terminates_iff simp_thms)
    then obtain j0 where "i \<le> j0" "letterAccepted g (rnd j0)" by (elim exE conjE)
    from first_accepted_exists [of i j0 "letterAccepted g" rnd, OF this] obtain j where
      j: "first_accepted (letterAccepted g) rnd i j" ..
    from chooseLetter_loop_first [OF j False] s have "r = (js_round (rnd j), Suc j)" by simp
    with j False show "(enabled g choice \<and> r = (choice, i)) \<or>
     (\<not> enabled g choice \<and>
        (\<exists>j. first_accepted (letterAccepted g) rnd i j \<and> r = (js_round (rnd j), Suc j)))"
      by (intro disjI2 conjI exI [of _ j])
  next
    assume "(enabled g choice \<and> r = (choice, i)) \<or>
     (\<not> enabled g choice \<and>
        (\<exists>j. first_accepted (letterAccepted g) rnd i j \<and> r = (js_round (rnd j), Suc j)))"
    with False have "\<exists>j. first_accepted (letterAccepted g) rnd i j \<and> r = (js_round (rnd j), Suc j)"
      by (simp only: simp_thms)
    then obtain j where j: "first_accepted (letterAccepted g) rnd i j"
      and r: "r = (js_round (rnd j), Suc j)" by (elim exE conjE)
    from chooseLetter_loop_first [OF j False] r show "chooseLetter_loop g rnd choice i = Some r"
      by simp
  qed
qed

lemma chooseLetter_loop_None_iff:
  "chooseLetter_loop g rnd choice i = None \<longleftrightarrow>
     \<not> enabled g choice \<and> (\<forall>j\<ge>i. \<not> letterAccepted g (rnd j))"
  using chooseLetter_loop_terminates_iff [of g rnd choice i] by auto

lemma chooseNumOrSymbol_loop_None_iff:
  "chooseNumOrSymbol_loop g rnd i = None \<longleftrightarrow> (\<forall>j\<ge>i. \<not> numOrSymbolAccepted g (rnd j))"
  using chooseNumOrSymbol_loop_terminates_iff [of g rnd i] by auto

subsection \<open>The indexed reads of \<^verbatim>\<open>chooseLetter\<close>\<close>

lemma chooseLetter_loop_reads_Some:
  assumes "chooseLetter_loop_reads g rnd choice i reads = Some r"
  shows "chooseLetter_loop g rnd choice i = Some (snd r) \<and>
         set (fst r) \<subseteq> set reads \<union> {choice} \<union> range (\<lambda>k. js_round (rnd k)) \<and> fst r \<noteq> []"
proof (rule chooseLetter_loop_reads.raw_induct [OF _ assms], goal_cases)
  case (1 loop g rnd choice i reads r)
  show ?case
  proof (cases "enabled g choice")
    case True
    then have "chooseLetter_loop g rnd choice i = Some (choice, i)"
      by (subst chooseLetter_loop.simps) simp
    with True 1(2) show ?thesis by auto
  next
    case False
    with 1(2) have s: "loop g rnd (js_round (rnd i)) (Suc i) (reads @ [choice]) = Some r" by simp
    from False have "chooseLetter_loop g rnd choice i =
        chooseLetter_loop g rnd (js_round (rnd i)) (Suc i)"
      by (subst chooseLetter_loop.simps) simp
    with 1(1) [OF s] show ?thesis by auto
  qed
qed

lemma chooseLetter_loop_reads_exists:
  assumes "chooseLetter_loop g rnd choice i = Some r"
  shows "\<forall>reads. \<exists>reads'. chooseLetter_loop_reads g rnd choice i reads = Some (reads', r)"
proof (rule chooseLetter_loop.raw_induct [OF _ assms], goal_cases)
  case (1 loop g rnd choice i r)
  show ?case
  proof (cases "enabled g choice")
    case True
    with 1(2) have r: "r = (choice, i)" by simp
    show ?thesis
    proof
      fix reads
      have "chooseLetter_loop_reads g rnd choice i reads = Some (reads @ [choice], choice, i)"
        using True by (subst chooseLetter_loop_reads.simps) simp
      then show "\<exists>reads'. chooseLetter_loop_reads g rnd choice i reads = Some (reads', r)"
        unfolding r by (rule exI)
    qed
  next
    case False
    with 1(2) have s: "loop g rnd (js_round (rnd i)) (Suc i) = Some r" by simp
    show ?thesis
    proof
      fix reads
      from 1(1) [OF s] obtain reads' where
        "chooseLetter_loop_reads g rnd (js_round (rnd i)) (Suc i) (reads @ [choice]) = Some (reads', r)"
        by (elim allE [of _ "reads @ [choice]"] exE)
      moreover have "chooseLetter_loop_reads g rnd choice i reads =
          chooseLetter_loop_reads g rnd (js_round (rnd i)) (Suc i) (reads @ [choice])"
        using False by (subst chooseLetter_loop_reads.simps) simp
      ultimately have "chooseLetter_loop_reads g rnd choice i reads = Some (reads', r)" by simp
      then show "\<exists>reads'. chooseLetter_loop_reads g rnd choice i reads = Some (reads', r)"
        by (rule exI)
    qed
  qed
qed

lemma chooseLetter_loop_reads_result:
  "map_option snd (chooseLetter_loop_reads g rnd choice i reads) = chooseLetter_loop g rnd choice i"
proof (cases "chooseLetter_loop_reads g rnd choice i reads")
  case None
  have "chooseLetter_loop g rnd choice i = None"
  proof (rule ccontr)
    assume "chooseLetter_loop g rnd choice i \<noteq> None"
    then obtain r where "chooseLetter_loop g rnd choice i = Some r" by auto
    from chooseLetter_loop_reads_exists [OF this] obtain reads' where
      "chooseLetter_loop_reads g rnd choice i reads = Some (reads', r)"
      by (elim allE [of _ reads] exE)
    with None show False by simp
  qed
  with None show ?thesis by simp
next
  case (Some r)
  from chooseLetter_loop_reads_Some [OF Some] Some show ?thesis by simp
qed

lemma chooseLetter_reads_result:
  "map_option snd (chooseLetter_reads g rnd i) = chooseLetter g rnd i"
proof (cases "\<not> enabled g 0 \<and> \<not> enabled g 1")
  case True
  then show ?thesis by (simp add: chooseLetter_reads_def chooseLetter_def)
next
  case False
  define rs :: "int list" where "rs = (if enabled g 0 then [0] else [0, 1])"
  note r = chooseLetter_loop_reads_result [of g rnd "js_round (rnd i)" "Suc i" rs]
  from False have nb: "(\<not> enabled g 0 \<and> \<not> enabled g 1) = False" by simp
  show ?thesis
  proof (cases "chooseLetter_loop_reads g rnd (js_round (rnd i)) (Suc i) rs")
    case None
    with r have "chooseLetter_loop g rnd (js_round (rnd i)) (Suc i) = None" by simp
    with None show ?thesis
      by (simp add: chooseLetter_reads_def chooseLetter_def rs_def nb)
  next
    case (Some t)
    obtain reads choice i1 where t: "t = (reads, choice, i1)" by (cases t)
    from r Some t have "chooseLetter_loop g rnd (js_round (rnd i)) (Suc i) = Some (choice, i1)"
      by simp
    with Some t show ?thesis
      by (simp add: chooseLetter_reads_def chooseLetter_def rs_def Let_def nb)
  qed
qed

lemma chooseLetter_reads_in_bounds:
  assumes v: "valid_draws rnd" and l: "length (passwordParts g) = 4"
    and r: "chooseLetter_reads g rnd i = Some (reads, chosen, i')"
  shows "reads \<noteq> [] \<and> set reads \<subseteq> {0, 1} \<and>
         (\<forall>k\<in>set reads. js_index (passwordParts g) k \<noteq> None)"
proof -
  have unit: "js_round (rnd k) \<in> {0, 1}" for k
    using v js_round_unit [of "rnd k"] by (simp add: valid_draws_def)
  have b: "js_index (passwordParts g) k \<noteq> None" if "k \<in> {0, 1}" for k
    using that l by (auto simp: js_index_def)
  have "reads \<noteq> [] \<and> set reads \<subseteq> {0, 1}"
  proof (cases "\<not> enabled g 0 \<and> \<not> enabled g 1")
    case True
    with r show ?thesis by (auto simp: chooseLetter_reads_def)
  next
    case False
    define rs :: "int list" where "rs = (if enabled g 0 then [0] else [0, 1])"
    from r False obtain t where
      t: "chooseLetter_loop_reads g rnd (js_round (rnd i)) (Suc i) rs = Some t" and
      f: "fst t = reads"
      by (auto simp: chooseLetter_reads_def rs_def Let_def split: option.splits)
    have 1: "set rs \<subseteq> {0, 1}" by (simp add: rs_def)
    have 2: "range (\<lambda>k. js_round (rnd k)) \<subseteq> {0, 1}" using unit by (rule image_subsetI)
    have 3: "{js_round (rnd i)} \<subseteq> {0, 1}" using unit [of i] by simp
    from 1 2 3 have u: "set rs \<union> {js_round (rnd i)} \<union> range (\<lambda>k. js_round (rnd k)) \<subseteq> {0, 1}"
      by (intro Un_least)
    from chooseLetter_loop_reads_Some [OF t] have
      "set (fst t) \<subseteq> set rs \<union> {js_round (rnd i)} \<union> range (\<lambda>k. js_round (rnd k))"
      "fst t \<noteq> []"
      by (simp_all only: simp_thms)
    with u have "fst t \<noteq> [] \<and> set (fst t) \<subseteq> {0, 1}" by (intro conjI) (simp, rule subset_trans)
    then show ?thesis unfolding f .
  qed
  with b show ?thesis by auto
qed

lemma chooseNumOrSymbol_emit_char:
  assumes v: "valid_draws rnd" and s: "valid_strength g" and sy: "symbols g = symbols_init"
  shows "\<exists>c. chooseNumOrSymbol_emit g rnd choice i = Inr (Str [c], Suc i)"
proof -
  from valid_strength_profile [OF s] obtain p where
    p: "js_index strengthProbs (strength g) = Some p" by blast
  have d: "0 \<le> rnd i" "rnd i < 1" using v by (simp_all add: valid_draws_def)
  have len: "length symbols_init = 34" by (simp add: symbols_init_def)
  show ?thesis
  proof (cases "choice \<le> symbol p")
    case True
    have "0 \<le> js_round (rnd i * real_of_int 33) \<and> js_round (rnd i * real_of_int 33) \<le> 33"
      using d by (intro js_round_range) simp_all
    with string_index_symbol [of "js_round (rnd i * 33)"] obtain c where
      "string_index symbols_init (js_round (rnd i * 33)) = Str [c]" by auto
    with True p sy len have "chooseNumOrSymbol_emit g rnd choice i = Inr (Str [c], Suc i)"
      by (simp add: chooseNumOrSymbol_emit_def)
    then show ?thesis by (rule exI)
  next
    case False
    have "0 \<le> js_round (rnd i * real_of_int 9) \<and> js_round (rnd i * real_of_int 9) \<le> 9"
      using d by (intro js_round_range) simp_all
    with toString_digit [of "js_round (rnd i * 9)"] obtain c where
      "toString (js_round (rnd i * 9)) = [c]" by auto
    with False p have "chooseNumOrSymbol_emit g rnd choice i = Inr (Str [c], Suc i)"
      by (simp add: chooseNumOrSymbol_emit_def)
    then show ?thesis by (rule exI)
  qed
qed

subsection \<open>The draws that give a symbol\<close>

lemma js_round_le_half: "js_round y \<le> k \<longleftrightarrow> y < real_of_int k + 1 / 2"
  unfolding js_round_def by (simp add: floor_le_iff) linarith

lemma symbol_test_margin:
  assumes p: "js_index strengthProbs s = Some p" and e: "\<bar>e\<bar> \<le> 1 / 2 ^ 47"
  shows "(x \<le> symbolThreshold s - 1 / 2 ^ 47 \<longrightarrow> js_round (x * 99 + e) \<le> symbol p) \<and>
         (symbolThreshold s + 1 / 2 ^ 47 \<le> x \<longrightarrow> \<not> js_round (x * 99 + e) \<le> symbol p)"
proof -
  define d :: real where "d = 1 / 2 ^ 47"
  have d: "0 < d" by (simp add: d_def)
  have t: "99 * symbolThreshold s = real_of_int (symbol p) + 1 / 2"
    using p by (simp add: symbolThreshold_def)
  from e have e': "- d \<le> e" "e \<le> d" by (simp_all add: d_def abs_le_iff)
  have 1: "js_round (x * 99 + e) \<le> symbol p" if "x \<le> symbolThreshold s - d"
  proof -
    from that have "x * 99 \<le> 99 * symbolThreshold s - 99 * d" by simp
    with t e'(2) d have "x * 99 + e < real_of_int (symbol p) + 1 / 2" by linarith
    then show ?thesis unfolding js_round_le_half .
  qed
  have 2: "\<not> js_round (x * 99 + e) \<le> symbol p" if "symbolThreshold s + d \<le> x"
  proof -
    from that have "99 * symbolThreshold s + 99 * d \<le> x * 99" by simp
    with t e'(1) d have "\<not> x * 99 + e < real_of_int (symbol p) + 1 / 2" by linarith
    then show ?thesis unfolding js_round_le_half .
  qed
  from 1 2 show ?thesis unfolding d_def by (intro conjI impI)
qed

lemma chooseNumOrSymbol_both:
  assumes v: "valid_draws rnd" and s: "valid_strength g" and sy: "symbols g = symbols_init"
    and e: "enabled g 2" "enabled g 3"
  shows "\<exists>c. chooseNumOrSymbol g rnd i = Some (Inr (Str [c], Suc (Suc (Suc i)))) \<and>
             (is_symbol c \<longleftrightarrow> rnd (Suc i) < symbolThreshold (strength g)) \<and>
             (is_digit c \<longleftrightarrow> \<not> rnd (Suc i) < symbolThreshold (strength g))"
proof -
  from valid_strength_profile [OF s] obtain p where
    p: "js_index strengthProbs (strength g) = Some p" by blast
  have lp: "chooseNumOrSymbol_loop g rnd (Suc i) =
      Some (Inr (js_round (rnd (Suc i) * 99), Suc (Suc i)))"
    using p e by (subst chooseNumOrSymbol_loop.simps) (auto simp: Let_def)
  then have ns: "chooseNumOrSymbol g rnd i =
      Some (chooseNumOrSymbol_emit g rnd (js_round (rnd (Suc i) * 99)) (Suc (Suc i)))"
    using e by (simp add: chooseNumOrSymbol_def)
  have d: "0 \<le> rnd (Suc (Suc i))" "rnd (Suc (Suc i)) < 1" using v by (simp_all add: valid_draws_def)
  show ?thesis
  proof (cases "rnd (Suc i) < symbolThreshold (strength g)")
    case True
    then have c: "js_round (rnd (Suc i) * 99) \<le> symbol p"
      by (simp add: symbolThreshold_profile [OF p])
    have "0 \<le> js_round (rnd (Suc (Suc i)) * real_of_int 33) \<and>
          js_round (rnd (Suc (Suc i)) * real_of_int 33) \<le> 33"
      using d by (intro js_round_range) simp_all
    with string_index_symbol [of "js_round (rnd (Suc (Suc i)) * 33)"] obtain c' where
      c': "string_index symbols_init (js_round (rnd (Suc (Suc i)) * 33)) = Str [c']" "is_symbol c'"
      by auto
    have len: "length symbols_init = 34" by (simp add: symbols_init_def)
    have "chooseNumOrSymbol g rnd i = Some (Inr (Str [c'], Suc (Suc (Suc i))))"
      using ns c p c'(1) sy len by (simp add: chooseNumOrSymbol_emit_def)
    with c'(2) True symbol_not_digit [of c'] show ?thesis by (intro exI [of _ c']) simp
  next
    case False
    then have c: "\<not> js_round (rnd (Suc i) * 99) \<le> symbol p"
      by (simp add: symbolThreshold_profile [OF p])
    have "0 \<le> js_round (rnd (Suc (Suc i)) * real_of_int 9) \<and>
          js_round (rnd (Suc (Suc i)) * real_of_int 9) \<le> 9"
      using d by (intro js_round_range) simp_all
    with toString_digit [of "js_round (rnd (Suc (Suc i)) * 9)"] obtain c' where
      c': "toString (js_round (rnd (Suc (Suc i)) * 9)) = [c']" "is_digit c'"
      by auto
    have "chooseNumOrSymbol g rnd i = Some (Inr (Str [c'], Suc (Suc (Suc i))))"
      using ns c p c'(1) by (simp add: chooseNumOrSymbol_emit_def)
    with c'(2) False symbol_not_digit [of c'] show ?thesis by (intro exI [of _ c']) auto
  qed
qed

lemma symbolChosen_iff:
  assumes s: "valid_strength g" and sy: "symbols g = symbols_init"
    and e: "enabled g 2" "enabled g 3" and x: "0 \<le> x" "x < 1"
  shows "symbolChosen g x \<longleftrightarrow> x < symbolThreshold (strength g)"
proof -
  have v: "valid_draws (\<lambda>_. x)" using x by (simp add: valid_draws_def)
  from chooseNumOrSymbol_both [OF v s sy e, of 0] obtain c where
    "chooseNumOrSymbol g (\<lambda>_. x) 0 = Some (Inr (Str [c], Suc (Suc (Suc 0))))"
    "is_symbol c \<longleftrightarrow> x < symbolThreshold (strength g)"
    by (elim exE conjE)
  then show ?thesis by (simp add: symbolChosen_def)
qed

lemma symbolThreshold_range:
  assumes "valid_strength g"
  shows "0 < symbolThreshold (strength g)" "symbolThreshold (strength g) < 1"
  using assms by (auto simp: valid_strength_def symbolThreshold_values)

lemma draws_giving_symbolChosen:
  assumes s: "valid_strength g" and sy: "symbols g = symbols_init"
    and e: "enabled g 2" "enabled g 3"
  shows "draws_giving (symbolChosen g) True = {0..<symbolThreshold (strength g)}"
proof -
  note r = symbolThreshold_range [OF s]
  have "0 \<le> x \<and> x < 1 \<and> symbolChosen g x \<longleftrightarrow> 0 \<le> x \<and> x < symbolThreshold (strength g)" for x
  proof (cases "0 \<le> x \<and> x < 1")
    case True
    then have "symbolChosen g x \<longleftrightarrow> x < symbolThreshold (strength g)"
      using symbolChosen_iff [OF s sy e, of x] by simp
    with True show ?thesis by simp
  next
    case False
    with r(2) show ?thesis by auto
  qed
  then show ?thesis unfolding draws_giving_def atLeastLessThan_def atLeast_def lessThan_def
    by auto
qed

lemma length_filter_less_upt: "length (filter (\<lambda>j. j < m) [0..<N]) = min m N"
proof -
  have "{i. i < length [0..<N] \<and> [0..<N] ! i < m} = {..<min m N}" by auto
  then show ?thesis by (simp add: length_filter_conv_card)
qed

lemma length_filter_grid:
  assumes N: "0 < N" and t: "0 \<le> t" "t \<le> 1"
  shows "length (filter (\<lambda>j. real j / real N < t) [0..<N]) = nat \<lceil>t * real N\<rceil>"
proof -
  have "real j / real N < t \<longleftrightarrow> j < nat \<lceil>t * real N\<rceil>" for j
  proof -
    have "real j / real N < t \<longleftrightarrow> real j < t * real N" using N by (simp add: field_simps)
    also have "\<dots> \<longleftrightarrow> real_of_int (int j) < t * real N" by simp
    also have "\<dots> \<longleftrightarrow> int j < \<lceil>t * real N\<rceil>" by (simp only: less_ceiling_iff)
    also have "\<dots> \<longleftrightarrow> j < nat \<lceil>t * real N\<rceil>" by (simp add: zless_nat_eq_int_zless)
    finally show ?thesis .
  qed
  then have "length (filter (\<lambda>j. real j / real N < t) [0..<N]) =
      length (filter (\<lambda>j. j < nat \<lceil>t * real N\<rceil>) [0..<N])" by simp
  also have "\<dots> = min (nat \<lceil>t * real N\<rceil>) N" by (rule length_filter_less_upt)
  also have "\<dots> = nat \<lceil>t * real N\<rceil>"
  proof -
    have "t * real N \<le> real N" using t N by (simp add: mult_left_le_one_le)
    then have "\<lceil>t * real N\<rceil> \<le> int N" by (simp add: ceiling_le_iff)
    then show ?thesis by simp
  qed
  finally show ?thesis .
qed

lemma share_of_draws_symbolChosen:
  assumes s: "valid_strength g" and sy: "symbols g = symbols_init"
    and e: "enabled g 2" "enabled g 3" and N: "0 < N"
  shows "share_of_draws (symbolChosen g) N =
           real (nat \<lceil>symbolThreshold (strength g) * real N\<rceil>) / real N"
proof -
  note r = symbolThreshold_range [OF s]
  have "filter (\<lambda>j. symbolChosen g (real j / real N)) [0..<N] =
        filter (\<lambda>j. real j / real N < symbolThreshold (strength g)) [0..<N]"
  proof (rule filter_cong [OF refl])
    fix j
    assume "j \<in> set [0..<N]"
    then have "0 \<le> real j / real N" "real j / real N < 1" using N by simp_all
    then show "symbolChosen g (real j / real N) \<longleftrightarrow> real j / real N < symbolThreshold (strength g)"
      by (rule symbolChosen_iff [OF s sy e])
  qed
  then show ?thesis
    using length_filter_grid [OF N, of "symbolThreshold (strength g)"] r
    by (simp add: share_of_draws_def)
qed

lemma share_of_draws_symbolChosen_bound:
  assumes s: "valid_strength g" and sy: "symbols g = symbols_init"
    and e: "enabled g 2" "enabled g 3" and N: "0 < N"
  shows "symbolThreshold (strength g) \<le> share_of_draws (symbolChosen g) N"
    "share_of_draws (symbolChosen g) N < symbolThreshold (strength g) + 1 / real N"
proof -
  define t where "t = symbolThreshold (strength g)"
  note r = symbolThreshold_range [OF s, folded t_def]
  have sh: "share_of_draws (symbolChosen g) N = real (nat \<lceil>t * real N\<rceil>) / real N"
    unfolding t_def by (rule share_of_draws_symbolChosen [OF s sy e N])
  have "0 \<le> t * real N" using r by simp
  then have c: "real (nat \<lceil>t * real N\<rceil>) = real_of_int \<lceil>t * real N\<rceil>" by simp
  have 1: "t * real N \<le> real_of_int \<lceil>t * real N\<rceil>" by (rule le_of_int_ceiling)
  have 2: "real_of_int \<lceil>t * real N\<rceil> < t * real N + 1" using ceiling_correct [of "t * real N"] by linarith
  from 1 N show "t \<le> share_of_draws (symbolChosen g) N"
    unfolding sh c by (simp add: field_simps)
  from 2 N show "share_of_draws (symbolChosen g) N < t + 1 / real N"
    unfolding sh c by (simp add: field_simps)
qed

lemma share_of_draws_symbolChosen_limit:
  assumes s: "valid_strength g" and sy: "symbols g = symbols_init"
    and e: "enabled g 2" "enabled g 3"
  shows "(\<lambda>N. share_of_draws (symbolChosen g) N) \<longlonglongrightarrow> symbolThreshold (strength g)"
proof -
  define t where "t = symbolThreshold (strength g)"
  have "(\<lambda>N. share_of_draws (symbolChosen g) N - t) \<longlonglongrightarrow> 0"
  proof (rule tendsto_0_le [where K = 1])
    show "(\<lambda>n. 1 / real n) \<longlonglongrightarrow> 0" by (rule lim_1_over_n)
    show "\<forall>\<^sub>F N in sequentially. norm (share_of_draws (symbolChosen g) N - t) \<le> norm (1 / real N) * 1"
    proof (rule eventually_sequentiallyI [of 1])
      fix N :: nat
      assume "1 \<le> N"
      then have N: "0 < N" by simp
      from share_of_draws_symbolChosen_bound [OF s sy e N, folded t_def]
      show "norm (share_of_draws (symbolChosen g) N - t) \<le> norm (1 / real N) * 1"
        by simp
    qed
  qed
  then show ?thesis unfolding t_def by (rule LIM_zero_cancel)
qed

subsection \<open>Further example runs\<close>

lemma example_first_accepted:
  "first_accepted (letterAccepted (example_generator [True, False, False, True]))
     (cycle_draws [9 / 10, 1 / 10]) 0 1"
  "first_accepted (numOrSymbolAccepted (example_generator [True, False, False, True]))
     (cycle_draws [9 / 10, 1 / 10]) 0 1"
  by (simp_all add: first_accepted_def cycle_draws_def example_accepted)

lemma lowercase_draws_rejected:
  "\<not> enabled (example_generator [False, True, False, False]) (js_round (constant_draws (1 / 10) j))"
  "\<not> letterAccepted (example_generator [False, True, False, False]) (constant_draws (1 / 10) j)"
  using example_accepted(1) [of False True False False]
  by (simp_all add: constant_draws_def letterAccepted_def)

lemma chooseLetter_reads_example:
  "chooseLetter_reads (example_generator [True, False, True, True])
     (cycle_draws [9 / 10, 1 / 10]) 0 = Some ([0, 1, 0], ''X'', 3)"
  by code_simp

lemma example_at_wf:
  "strength (example_generator_at s boxes) = s"
  "symbols (example_generator_at s boxes) = symbols_init"
  "enabled (example_generator_at s boxes) k = enabled (example_generator boxes) k"
  "charLength (example_generator_at s boxes) = 7"
  by (simp_all add: example_generator_at_def example_generator_def enabled_def)

lemma example_at_valid:
  "valid_strength (example_generator_at 0 boxes)" "valid_strength (example_generator_at 3 boxes)"
  by (simp_all add: valid_strength_def example_at_wf)

lemma example_at_run:
  "generatePassword_loop (example_generator_at 0 [False, False, True, True])
     (constant_draws (11 / 200)) 7 '''' 0 = Some (Inr (''!!!!!!!'', 28))"
  by code_simp

section \<open>The claims\<close>

subsection \<open>C1: length of the password\<close>

text \<open>
  Claim C1, as the code has it. For every target length \<open>charLength g \<ge> 0\<close> and every
  generator with at least one character class ticked (strength in \<open>{0, 1, 2, 3}\<close>, the
  initial symbol string, draws in \<open>[0, 1)\<close>): on every sequence of draws that is fair to
  the generator, \<^verbatim>\<open>generatePassword\<close> returns and has written a password of exactly that
  length; and on any sequence of draws, a call that returns has written a password of
  exactly that length.
\<close>

theorem generatePassword_length:
  assumes "valid_draws rnd" and "valid_strength g" and "symbols g = symbols_init"
    and "0 \<le> charLength g"
    and "enabled g 0 \<or> enabled g 1 \<or> enabled g 2 \<or> enabled g 3"
  shows "(fair_draws g rnd \<longrightarrow>
            (\<exists>g' i'. generatePassword g rnd i = Some (Inr (g', i')) \<and>
                      int (length (passRes (domElements g'))) = charLength g)) \<and>
         (\<forall>r. generatePassword g rnd i = Some r \<longrightarrow>
            (\<exists>g' i'. r = Inr (g', i') \<and> int (length (passRes (domElements g'))) = charLength g))"
proof -
  have some: "\<exists>g' i'. r = Inr (g', i') \<and> int (length (passRes (domElements g'))) = charLength g"
    if "generatePassword g rnd i = Some r" for r
    using generatePassword_Some [OF assms(1-3) that] assms(4,5) by auto
  have fair: "\<exists>g' i'. generatePassword g rnd i = Some (Inr (g', i')) \<and>
                      int (length (passRes (domElements g'))) = charLength g"
    if "fair_draws g rnd"
  proof -
    from that have "generatePassword g rnd i \<noteq> None" by (rule generatePassword_terminates)
    then obtain r where r: "generatePassword g rnd i = Some r" by auto
    from some [OF r] obtain g' i' where
      "r = Inr (g', i')" "int (length (passRes (domElements g'))) = charLength g"
      by (elim exE conjE)
    with r show ?thesis by (intro exI [of _ g'] exI [of _ i']) simp
  qed
  show ?thesis
  proof (intro conjI impI allI)
    assume "fair_draws g rnd"
    then show "\<exists>g' i'. generatePassword g rnd i = Some (Inr (g', i')) \<and>
                      int (length (passRes (domElements g'))) = charLength g"
      by (rule fair)
  next
    fix r
    assume "generatePassword g rnd i = Some r"
    then show "\<exists>g' i'. r = Inr (g', i') \<and>
        int (length (passRes (domElements g'))) = charLength g"
      by (rule some)
  qed
qed

theorem generatePassword_length_witness:
  "valid_draws (cycle_draws [9 / 10, 1 / 10]) \<and>
   valid_strength (example_generator [True, False, False, True]) \<and>
   symbols (example_generator [True, False, False, True]) = symbols_init \<and>
   0 \<le> charLength (example_generator [True, False, False, True]) \<and>
   enabled (example_generator [True, False, False, True]) 0 \<and>
   fair_draws (example_generator [True, False, False, True]) (cycle_draws [9 / 10, 1 / 10]) \<and>
   (\<exists>g' i'. generatePassword (example_generator [True, False, False, True])
               (cycle_draws [9 / 10, 1 / 10]) 0 = Some (Inr (g', i')) \<and>
             length (passRes (domElements g')) = 7)"
proof -
  let ?g = "example_generator [True, False, False, True]"
  let ?rnd = "cycle_draws [9 / 10, 1 / 10]"
  note v = example_valid_draws and s = example_wf(1) [of "[True, False, False, True]"]
    and sy = example_wf(2) [of "[True, False, False, True]"]
    and f = example_fair_any [of True False False True]
  have l: "0 \<le> charLength ?g" "charLength ?g = 7" by (simp_all add: example_wf)
  have e0: "enabled ?g 0" by (simp add: example_enabled)
  then have e: "enabled ?g 0 \<or> enabled ?g 1 \<or> enabled ?g 2 \<or> enabled ?g 3" by simp
  from generatePassword_length [OF v s sy l(1) e, of 0] f
  obtain g' i' where "generatePassword ?g ?rnd 0 = Some (Inr (g', i'))"
    "int (length (passRes (domElements g'))) = charLength ?g"
    by (elim conjE impE exE) simp_all
  with l(2) have "\<exists>g' i'. generatePassword ?g ?rnd 0 = Some (Inr (g', i')) \<and>
             length (passRes (domElements g')) = 7"
    by (intro exI [of _ g'] exI [of _ i']) simp
  with v s sy l(1) e0 f show ?thesis by (simp only: simp_thms)
qed

text \<open>
  Claim C1, as the spec has it, fails: the call does not return for every sequence of
  draws. When every draw is \<open>1/10\<close> the case drawn is always 0, so with only lowercase
  ticked the loop of \<^verbatim>\<open>chooseLetter\<close> never ends, and \<^verbatim>\<open>generatePassword\<close> writes no
  password of any length.
\<close>

theorem generatePassword_never_returns_counterexample:
  "valid_draws (constant_draws (1 / 10)) \<and>
   valid_strength (example_generator [False, True, False, False]) \<and>
   symbols (example_generator [False, True, False, False]) = symbols_init \<and>
   0 \<le> charLength (example_generator [False, True, False, False]) \<and>
   enabled (example_generator [False, True, False, False]) 1 \<and>
   generatePassword (example_generator [False, True, False, False]) (constant_draws (1 / 10)) 0 = None \<and>
   \<not> (\<exists>g' i'. generatePassword (example_generator [False, True, False, False])
                 (constant_draws (1 / 10)) 0 = Some (Inr (g', i')) \<and>
               int (length (passRes (domElements g'))) =
                 charLength (example_generator [False, True, False, False]))"
proof -
  let ?g = "example_generator [False, True, False, False]"
  let ?rnd = "constant_draws (1 / 10)"
  have v: "valid_draws ?rnd" by (simp add: valid_draws_def constant_draws_def)
  have e: "enabled ?g 1" "\<not> enabled ?g 0" by (simp_all add: example_enabled)
  have w: "valid_strength ?g" "symbols ?g = symbols_init" "0 \<le> charLength ?g"
    by (simp_all add: example_wf)
  have "chooseLetter_loop ?g ?rnd (js_round (?rnd 0)) (Suc 0) = None"
    by (rule chooseLetter_loop_None) (simp_all add: lowercase_draws_rejected)
  with e have l: "chooseLetter ?g ?rnd 0 = None" by (simp add: chooseLetter_def)
  have "generatePassword_loop ?g ?rnd (Suc 6) '''' 0 = None"
    using l by (rule generatePassword_loop_Suc_None)
  moreover have "nat (charLength ?g) = Suc 6" by (simp add: example_wf)
  ultimately have gp: "generatePassword ?g ?rnd 0 = None"
    by (simp only: generatePassword_def option.case)
  from v w e(1) gp show ?thesis by simp
qed

subsection \<open>C2: the strength setter\<close>

text \<open>
  Claim C2, as the code has it. \<^verbatim>\<open>setPasswordStrength\<close> checks nothing: for every ordinal,
  in the table or not, it stores the ordinal as the strength and leaves the length, the
  checkbox states, the symbol string and the titles as they were. For an ordinal in
  \<open>{0, 1, 2, 3}\<close> the call ends without an exception and the strength stored is an
  index of the table. For an ordinal outside, the call throws a \<^verbatim>\<open>TypeError\<close>, after
  the store, exactly when some strength bar has a value that is at most the ordinal.
\<close>

theorem setPasswordStrength_stores_any_ordinal:
  "strength (fst (setPasswordStrength g s)) = s \<and>
   charLength (fst (setPasswordStrength g s)) = charLength g \<and>
   passwordParts (fst (setPasswordStrength g s)) = passwordParts g \<and>
   symbols (fst (setPasswordStrength g s)) = symbols g \<and>
   strengthTitles (fst (setPasswordStrength g s)) = strengthTitles g \<and>
   (s \<in> {0, 1, 2, 3} \<longrightarrow>
      snd (setPasswordStrength g s) = None \<and> valid_strength (fst (setPasswordStrength g s))) \<and>
   (s \<notin> {0, 1, 2, 3} \<longrightarrow>
      snd (setPasswordStrength g s) =
        (if \<exists>level\<in>set (strengthLevels (domElements g)). \<exists>v. parsedValue level = Some v \<and> v \<le> s
         then Some TypeError else None))"
proof -
  obtain levels e where c: "colourLevels s (strengthLevels (domElements g)) = (levels, e)"
    by (cases "colourLevels s (strengthLevels (domElements g))")
  then have g': "fst (setPasswordStrength g s) =
      g\<lparr>domElements := (domElements g)
            \<lparr>strengthDesc := (case js_index (strengthTitles g) s of None \<Rightarrow> '''' | Some t \<Rightarrow> t),
             strengthLevels := levels\<rparr>,
        strength := s\<rparr>" and e: "snd (setPasswordStrength g s) = e"
    by (simp_all add: setPasswordStrength_def Let_def)
  from c have "e = snd (colourLevels s (strengthLevels (domElements g)))" by simp
  with e have e': "snd (setPasswordStrength g s) =
     (if js_index strengthProbs s = None \<and>
         (\<exists>level\<in>set (strengthLevels (domElements g)). \<exists>v. parsedValue level = Some v \<and> v \<le> s)
      then Some TypeError else None)"
    by (simp only: colourLevels_error)
  have 1: "s \<in> {0, 1, 2, 3} \<longrightarrow>
      snd (setPasswordStrength g s) = None \<and> valid_strength (fst (setPasswordStrength g s))"
    using e' g' js_index_strengthProbs_None [of s] by (auto simp: valid_strength_def)
  have 2: "s \<notin> {0, 1, 2, 3} \<longrightarrow>
      snd (setPasswordStrength g s) =
        (if \<exists>level\<in>set (strengthLevels (domElements g)). \<exists>v. parsedValue level = Some v \<and> v \<le> s
         then Some TypeError else None)"
    using e' js_index_strengthProbs_None [of s] by simp
  from g' 1 2 show ?thesis by simp
qed

theorem setPasswordStrength_stores_any_ordinal_witness:
  "(3 :: int) \<in> {0, 1, 2, 3} \<and>
   strength (fst (setPasswordStrength (example_generator [True, True, True, True]) 3)) = 3 \<and>
   snd (setPasswordStrength (example_generator [True, True, True, True]) 3) = None \<and>
   valid_strength (fst (setPasswordStrength (example_generator [True, True, True, True]) 3)) \<and>
   (7 :: int) \<notin> {0, 1, 2, 3} \<and>
   (\<exists>level\<in>set (strengthLevels (domElements (example_generator [True, True, True, True]))).
      \<exists>v. parsedValue level = Some v \<and> v \<le> 7) \<and>
   snd (setPasswordStrength (example_generator [True, True, True, True]) 7) = Some TypeError"
proof -
  let ?g = "example_generator [True, True, True, True]"
  have l: "\<exists>level\<in>set (strengthLevels (domElements ?g)). \<exists>v. parsedValue level = Some v \<and> v \<le> 7"
    by (simp add: example_generator_def example_dom_def)
  from setPasswordStrength_stores_any_ordinal [of ?g 3]
    setPasswordStrength_stores_any_ordinal [of ?g 7] l
  show ?thesis by simp
qed

text \<open>
  Claim C2, as the spec has it, fails: on the example generator (strength 1) the call
  with ordinal 7 stores 7, and the call with ordinal \<open>- 1\<close> raises nothing and stores
  \<open>- 1\<close>.
\<close>

theorem setPasswordStrength_unchecked_counterexample:
  "strength (example_generator [True, True, True, True]) = 1 \<and>
   strength (fst (setPasswordStrength (example_generator [True, True, True, True]) 7)) = 7 \<and>
   snd (setPasswordStrength (example_generator [True, True, True, True]) (- 1)) = None \<and>
   strength (fst (setPasswordStrength (example_generator [True, True, True, True]) (- 1))) = - 1"
  by (simp add: setPasswordStrength_def example_generator_def example_dom_def Let_def
      js_index_def strengthTitles_init_def strengthProbs_def)

subsection \<open>C3: no class ticked\<close>

text \<open>
  Claim C3. With the four character classes unticked, \<^verbatim>\<open>generatePassword\<close> returns and
  the password it writes is empty, for every target length and whatever the draws are.
\<close>

theorem generatePassword_all_disabled:
  assumes "valid_strength g"
    and "\<not> enabled g 0" and "\<not> enabled g 1" and "\<not> enabled g 2" and "\<not> enabled g 3"
  shows "\<exists>g' i'. generatePassword g rnd i = Some (Inr (g', i')) \<and>
           passRes (domElements g') = ''''"
  using generatePassword_loop_disabled [OF assms, of rnd "nat (charLength g)" "''''" i]
  by (simp add: generatePassword_def)

theorem generatePassword_all_disabled_witness:
  "valid_strength (example_generator [False, False, False, False]) \<and>
   \<not> enabled (example_generator [False, False, False, False]) 0 \<and>
   \<not> enabled (example_generator [False, False, False, False]) 1 \<and>
   \<not> enabled (example_generator [False, False, False, False]) 2 \<and>
   \<not> enabled (example_generator [False, False, False, False]) 3 \<and>
   (\<exists>g' i'. generatePassword (example_generator [False, False, False, False])
               (cycle_draws [9 / 10, 1 / 10]) 0 = Some (Inr (g', i')) \<and>
             passRes (domElements g') = '''')"
proof -
  let ?g = "example_generator [False, False, False, False]"
  have s: "valid_strength ?g" by (simp add: valid_strength_def example_generator_def)
  have d: "\<not> enabled ?g 0" "\<not> enabled ?g 1" "\<not> enabled ?g 2" "\<not> enabled ?g 3"
    by (simp_all add: example_enabled)
  from generatePassword_all_disabled [OF s d, of "cycle_draws [9 / 10, 1 / 10]" 0] s d
  show ?thesis by blast
qed

subsection \<open>C4: what the accepted value selects\<close>

text \<open>
  Claim C4, as the code has it. Once the rejection loop has accepted a value, the value
  lies in \<open>[0, 99]\<close>; if it is at most the symbol percentage of the profile, the result
  is the character of the symbol string at the position that one further draw selects,
  otherwise it is the decimal digit that one further draw selects. The symbol string has
  the 34 characters of the source literal, slashes, brackets and the backslash included
  (as ASCII codes below), and every position of it and every digit from 0 to 9 is
  selected by some draw.
\<close>

theorem chooseNumOrSymbol_emits_symbol_or_digit:
  assumes "valid_draws rnd" and "valid_strength g" and "symbols g = symbols_init"
    and "chooseNumOrSymbol_loop g rnd j = Some (Inr (choice, i))"
  shows "(\<exists>p. js_index strengthProbs (strength g) = Some p \<and> 0 \<le> choice \<and> choice \<le> 99 \<and>
            (choice \<le> symbol p \<longrightarrow>
               0 \<le> js_round (rnd i * 33) \<and> js_round (rnd i * 33) \<le> 33 \<and>
               chooseNumOrSymbol_emit g rnd choice i =
                 Inr (Str [symbols_init ! nat (js_round (rnd i * 33))], Suc i)) \<and>
            (symbol p < choice \<longrightarrow>
               0 \<le> js_round (rnd i * 9) \<and> js_round (rnd i * 9) \<le> 9 \<and>
               chooseNumOrSymbol_emit g rnd choice i =
                 Inr (Str (toString (js_round (rnd i * 9))), Suc i) \<and>
               (\<exists>c. toString (js_round (rnd i * 9)) = [c] \<and> is_digit c \<and>
                    (of_char c :: nat) = 48 + nat (js_round (rnd i * 9))))) \<and>
         map of_char symbols_init =
           [47, 91, 33, 64, 35, 36, 37, 94, 38, 42, 40, 41, 95, 43, 45, 61, 91, 93, 123, 125, 59,
            39, 58, 92, 124, 44, 46, 60, 62, 47, 63, 93, 43, 47 :: nat] \<and>
         (\<forall>k. 0 \<le> k \<and> k \<le> 33 \<longrightarrow> (\<exists>x. 0 \<le> x \<and> x < 1 \<and> js_round (x * 33) = k)) \<and>
         (\<forall>d. 0 \<le> d \<and> d \<le> 9 \<longrightarrow> (\<exists>x. 0 \<le> x \<and> x < 1 \<and> js_round (x * 9) = d))"
proof -
  from valid_strength_profile [OF assms(2)] obtain p where
    p: "js_index strengthProbs (strength g) = Some p" by blast
  from chooseNumOrSymbol_loop_Some [OF assms(4)] obtain k where
    "choice = js_round (rnd k * 99)" by auto
  moreover have "0 \<le> js_round (rnd k * real_of_int 99) \<and> js_round (rnd k * real_of_int 99) \<le> 99"
    using assms(1) by (intro js_round_range) (simp_all add: valid_draws_def)
  ultimately have c: "0 \<le> choice" "choice \<le> 99" by simp_all
  have len: "length (symbols g) = 34" using assms(3) by (simp add: symbols_init_def)
  have s: "0 \<le> js_round (rnd i * 33)" "js_round (rnd i * 33) \<le> 33"
    using assms(1) js_round_range [of "rnd i" 33] by (simp_all add: valid_draws_def)
  have d: "0 \<le> js_round (rnd i * 9)" "js_round (rnd i * 9) \<le> 9"
    using assms(1) js_round_range [of "rnd i" 9] by (simp_all add: valid_draws_def)
  have sym: "chooseNumOrSymbol_emit g rnd choice i =
                 Inr (Str [symbols_init ! nat (js_round (rnd i * 33))], Suc i)"
    if "choice \<le> symbol p"
    using that p s len assms(3) by (simp add: chooseNumOrSymbol_emit_def string_index_def)
  have dig: "chooseNumOrSymbol_emit g rnd choice i =
                 Inr (Str (toString (js_round (rnd i * 9))), Suc i)"
    if "symbol p < choice"
    using that p by (simp add: chooseNumOrSymbol_emit_def)
  note dc = toString_digit_code [OF d]
  have emit: "\<exists>p. js_index strengthProbs (strength g) = Some p \<and> 0 \<le> choice \<and> choice \<le> 99 \<and>
            (choice \<le> symbol p \<longrightarrow>
               0 \<le> js_round (rnd i * 33) \<and> js_round (rnd i * 33) \<le> 33 \<and>
               chooseNumOrSymbol_emit g rnd choice i =
                 Inr (Str [symbols_init ! nat (js_round (rnd i * 33))], Suc i)) \<and>
            (symbol p < choice \<longrightarrow>
               0 \<le> js_round (rnd i * 9) \<and> js_round (rnd i * 9) \<le> 9 \<and>
               chooseNumOrSymbol_emit g rnd choice i =
                 Inr (Str (toString (js_round (rnd i * 9))), Suc i) \<and>
               (\<exists>c. toString (js_round (rnd i * 9)) = [c] \<and> is_digit c \<and>
                    (of_char c :: nat) = 48 + nat (js_round (rnd i * 9))))"
    using p c s d sym dig dc by (intro exI [of _ p]) simp
  have r33: "\<forall>k. 0 \<le> k \<and> k \<le> 33 \<longrightarrow> (\<exists>x. 0 \<le> x \<and> x < 1 \<and> js_round (x * 33) = k)"
    using js_round_reaches [of _ 33] by simp
  have r9: "\<forall>d. 0 \<le> d \<and> d \<le> 9 \<longrightarrow> (\<exists>x. 0 \<le> x \<and> x < 1 \<and> js_round (x * 9) = d)"
    using js_round_reaches [of _ 9] by simp
  from emit symbols_init_codes r33 r9 show ?thesis by (intro conjI)
qed

theorem chooseNumOrSymbol_emits_symbol_or_digit_witness:
  "valid_draws (cycle_draws [9 / 10, 1 / 10]) \<and>
   valid_strength (example_generator [True, True, True, True]) \<and>
   chooseNumOrSymbol_loop (example_generator [True, True, True, True])
     (cycle_draws [9 / 10, 1 / 10]) 1 = Some (Inr (10, 2)) \<and>
   chooseNumOrSymbol_emit (example_generator [True, True, True, True])
     (cycle_draws [9 / 10, 1 / 10]) 10 2 = Inr (Str ''?'', 3) \<and>
   chooseNumOrSymbol_loop (example_generator [True, True, True, True])
     (cycle_draws [9 / 10, 1 / 10]) 0 = Some (Inr (89, 1)) \<and>
   chooseNumOrSymbol_emit (example_generator [True, True, True, True])
     (cycle_draws [9 / 10, 1 / 10]) 89 1 = Inr (Str ''1'', 2) \<and>
   (\<exists>x. 0 \<le> x \<and> x < 1 \<and> js_round (x * 33) = 33) \<and>
   (\<exists>x. 0 \<le> x \<and> x < 1 \<and> js_round (x * 9) = 0)"
proof -
  let ?g = "example_generator [True, True, True, True]"
  let ?rnd = "cycle_draws [9 / 10, 1 / 10]"
  note a = chooseNumOrSymbol_emits_symbol_or_digit
    [OF example_valid_draws example_wf(1) example_wf(2) example_loop_runs(1)]
  note b = chooseNumOrSymbol_emits_symbol_or_digit
    [OF example_valid_draws example_wf(1) example_wf(2) example_loop_runs(2)]
  have r2: "js_round (?rnd 2 * 33) = 30" and r1: "js_round (?rnd 1 * 9) = 1"
    by code_simp+
  have "symbols_init ! 30 = CHR ''?''" by (simp add: symbols_init_def)
  with a r2 have 1: "chooseNumOrSymbol_emit ?g ?rnd 10 2 = Inr (Str ''?'', 3)"
    by (simp add: example_profile)
  have "toString 1 = ''1''" by code_simp
  with b r1 have 2: "chooseNumOrSymbol_emit ?g ?rnd 89 1 = Inr (Str ''1'', 2)"
    by (simp add: example_profile)
  from a have 3: "\<exists>x. 0 \<le> x \<and> x < 1 \<and> js_round (x * 33) = 33" by simp
  from a have 4: "\<exists>x. 0 \<le> x \<and> x < 1 \<and> js_round (x * 9) = 0" by simp
  from example_valid_draws example_wf(1) [of "[True, True, True, True]"]
    example_loop_runs 1 2 3 4
  show ?thesis by (simp only: simp_thms)
qed

text \<open>
  Claim C4, as the spec has it, fails where it says "uniformly": the digit 0 is given by
  the draws of \<open>[0, 1/18)\<close> only, the digit 1 by those of \<open>[1/18, 1/6)\<close>, an interval
  twice as long, and neither has the length \<open>1/10\<close> of a uniform choice among ten.
\<close>

theorem digit_not_chosen_uniformly_counterexample:
  "draws_giving (emitted (example_generator [True, True, True, True]) 99) (Str ''0'') = {0..<1 / 18} \<and>
   draws_giving (emitted (example_generator [True, True, True, True]) 99) (Str ''1'') = {1 / 18..<1 / 6} \<and>
   \<not> chosen_uniformly (emitted (example_generator [True, True, True, True]) 99)
       [Str ''0'', Str ''1'', Str ''2'', Str ''3'', Str ''4'', Str ''5'', Str ''6'', Str ''7'',
        Str ''8'', Str ''9'']"
proof (intro conjI)
  show "draws_giving (emitted (example_generator [True, True, True, True]) 99) (Str ''0'') = {0..<1 / 18}"
    by (rule draws_giving_digit_0)
  show "draws_giving (emitted (example_generator [True, True, True, True]) 99) (Str ''1'') = {1 / 18..<1 / 6}"
    by (rule draws_giving_digit_1)
  show "\<not> chosen_uniformly (emitted (example_generator [True, True, True, True]) 99)
       [Str ''0'', Str ''1'', Str ''2'', Str ''3'', Str ''4'', Str ''5'', Str ''6'', Str ''7'',
        Str ''8'', Str ''9'']"
  proof
    assume "chosen_uniformly (emitted (example_generator [True, True, True, True]) 99)
       [Str ''0'', Str ''1'', Str ''2'', Str ''3'', Str ''4'', Str ''5'', Str ''6'', Str ''7'',
        Str ''8'', Str ''9'']"
    then obtain a :: real where
      "draws_giving (emitted (example_generator [True, True, True, True]) 99) (Str ''0'')
         = {a..<a + 1 / 10}"
      by (auto simp: chosen_uniformly_def)
    then have "{0..<1 / 18} = {a..<a + 1 / (10 :: real)}" by (simp only: draws_giving_digit_0)
    then have "0 = a" "1 / 18 = a + 1 / 10" by (rule atLeastLessThan_inj; simp)+
    then show False by simp
  qed
qed

subsection \<open>C5: termination of the sampling loops\<close>

text \<open>
  Claim C5, as the code has it. Each sampling loop ends at the first accepted draw and
  reads no draw after it. The rejection loop of \<^verbatim>\<open>chooseNumOrSymbol\<close>, started at position
  \<open>i\<close>, returns exactly when the draws from \<open>i\<close> on have a first accepted one, at some
  position \<open>j\<close>; it then returns the value of that draw, and \<open>j + 1\<close> as the position of
  the next draw (when the strength is no index of the table, every draw counts as
  accepted and the loop throws at its first one). The case loop of \<^verbatim>\<open>chooseLetter\<close>
  returns at once, reading no draw, when its first choice is ticked; otherwise it returns
  exactly when the draws from \<open>i\<close> on have a first one that gives a ticked case, at some
  position \<open>j\<close>, and returns that case and \<open>j + 1\<close>. A loop does not return exactly when no draw from its start on is accepted
  (and, for \<^verbatim>\<open>chooseLetter\<close>, the first choice is not ticked). A draw in \<open>[0, 1)\<close> that is
  accepted exists whenever the check before the loop has passed. \<^verbatim>\<open>chooseLetter\<close>,
  \<^verbatim>\<open>chooseNumOrSymbol\<close> and \<^verbatim>\<open>generatePassword\<close> return, for every configuration, on every
  sequence of draws that is fair to it.
\<close>

theorem sampling_terminates_on_fair_draws:
  "(chooseLetter_loop g rnd choice i = Some r \<longleftrightarrow>
      (enabled g choice \<and> r = (choice, i)) \<or>
      (\<not> enabled g choice \<and>
         (\<exists>j. first_accepted (letterAccepted g) rnd i j \<and> r = (js_round (rnd j), Suc j)))) \<and>
   (chooseNumOrSymbol_loop g rnd i = Some r' \<longleftrightarrow>
      (\<exists>j. first_accepted (numOrSymbolAccepted g) rnd i j \<and>
           r' = (case js_index strengthProbs (strength g) of
                   None \<Rightarrow> Inl TypeError
                 | Some p \<Rightarrow> Inr (js_round (rnd j * 99), Suc j)))) \<and>
   (chooseLetter_loop g rnd choice i = None \<longleftrightarrow>
      \<not> enabled g choice \<and> (\<forall>j\<ge>i. \<not> letterAccepted g (rnd j))) \<and>
   (chooseNumOrSymbol_loop g rnd i = None \<longleftrightarrow> (\<forall>j\<ge>i. \<not> numOrSymbolAccepted g (rnd j))) \<and>
   (enabled g 0 \<or> enabled g 1 \<longrightarrow> (\<exists>x. 0 \<le> x \<and> x < 1 \<and> letterAccepted g x)) \<and>
   (enabled g 2 \<or> enabled g 3 \<longrightarrow> (\<exists>x. 0 \<le> x \<and> x < 1 \<and> numOrSymbolAccepted g x)) \<and>
   (fair_draws g rnd \<longrightarrow>
      chooseLetter g rnd i \<noteq> None \<and> chooseNumOrSymbol g rnd i \<noteq> None \<and>
      generatePassword g rnd i \<noteq> None)"
proof (intro conjI impI)
  show "chooseLetter_loop g rnd choice i = Some r \<longleftrightarrow>
      (enabled g choice \<and> r = (choice, i)) \<or>
      (\<not> enabled g choice \<and>
         (\<exists>j. first_accepted (letterAccepted g) rnd i j \<and> r = (js_round (rnd j), Suc j)))"
    by (rule chooseLetter_loop_Some_iff)
  show "chooseNumOrSymbol_loop g rnd i = Some r' \<longleftrightarrow>
      (\<exists>j. first_accepted (numOrSymbolAccepted g) rnd i j \<and>
           r' = (case js_index strengthProbs (strength g) of
                   None \<Rightarrow> Inl TypeError
                 | Some p \<Rightarrow> Inr (js_round (rnd j * 99), Suc j)))"
    by (rule chooseNumOrSymbol_loop_Some_iff)
  show "chooseLetter_loop g rnd choice i = None \<longleftrightarrow>
      \<not> enabled g choice \<and> (\<forall>j\<ge>i. \<not> letterAccepted g (rnd j))"
    by (rule chooseLetter_loop_None_iff)
  show "chooseNumOrSymbol_loop g rnd i = None \<longleftrightarrow> (\<forall>j\<ge>i. \<not> numOrSymbolAccepted g (rnd j))"
    by (rule chooseNumOrSymbol_loop_None_iff)
  show "\<exists>x. 0 \<le> x \<and> x < 1 \<and> letterAccepted g x" if "enabled g 0 \<or> enabled g 1"
    using that by (rule letterAccepted_exists)
  show "\<exists>x. 0 \<le> x \<and> x < 1 \<and> numOrSymbolAccepted g x" if "enabled g 2 \<or> enabled g 3"
    using that by (rule numOrSymbolAccepted_exists)
  show "chooseLetter g rnd i \<noteq> None" if "fair_draws g rnd"
    using that by (rule chooseLetter_terminates)
  show "chooseNumOrSymbol g rnd i \<noteq> None" if "fair_draws g rnd"
    using that by (rule chooseNumOrSymbol_terminates)
  show "generatePassword g rnd i \<noteq> None" if "fair_draws g rnd"
    using that by (rule generatePassword_terminates)
qed

theorem sampling_terminates_on_fair_draws_witness:
  "\<not> enabled (example_generator [True, False, False, True]) 1 \<and>
   enabled (example_generator [True, False, False, True]) 0 \<and>
   enabled (example_generator [True, False, False, True]) 3 \<and>
   fair_draws (example_generator [True, False, False, True]) (cycle_draws [9 / 10, 1 / 10]) \<and>
   first_accepted (letterAccepted (example_generator [True, False, False, True]))
     (cycle_draws [9 / 10, 1 / 10]) 0 1 \<and>
   first_accepted (numOrSymbolAccepted (example_generator [True, False, False, True]))
     (cycle_draws [9 / 10, 1 / 10]) 0 1 \<and>
   chooseLetter_loop (example_generator [True, False, False, True])
     (cycle_draws [9 / 10, 1 / 10]) 1 0 = Some (0, 2) \<and>
   chooseNumOrSymbol_loop (example_generator [True, False, False, True])
     (cycle_draws [9 / 10, 1 / 10]) 0 = Some (Inr (10, 2)) \<and>
   chooseLetter (example_generator [True, False, False, True]) (cycle_draws [9 / 10, 1 / 10]) 0 \<noteq> None \<and>
   chooseNumOrSymbol (example_generator [True, False, False, True]) (cycle_draws [9 / 10, 1 / 10]) 0 \<noteq> None \<and>
   generatePassword (example_generator [True, False, False, True]) (cycle_draws [9 / 10, 1 / 10]) 0 \<noteq> None"
proof -
  let ?g = "example_generator [True, False, False, True]"
  let ?rnd = "cycle_draws [9 / 10, 1 / 10]"
  note f = example_fair_any [of True False False True]
  have e: "\<not> enabled ?g 1" "enabled ?g 0" "enabled ?g 3" by (simp_all add: example_enabled)
  have v: "js_round (?rnd 1) = 0" "js_round (?rnd 1 * 99) = 10"
    by (simp_all add: cycle_draws_def js_round_def)
  note t1 = sampling_terminates_on_fair_draws [of ?g ?rnd 1 0 "(0, 2)" "Inr (10, 2)"]
  from t1 e(1) example_first_accepted(1) v(1)
  have 1: "chooseLetter_loop ?g ?rnd 1 0 = Some (0, 2)" by auto
  from t1 example_first_accepted(2) v(2)
  have 2: "chooseNumOrSymbol_loop ?g ?rnd 0 = Some (Inr (10, 2))"
    by (auto simp: example_profile)
  from t1 f have 3: "chooseLetter ?g ?rnd 0 \<noteq> None \<and> chooseNumOrSymbol ?g ?rnd 0 \<noteq> None \<and>
      generatePassword ?g ?rnd 0 \<noteq> None" by (simp only: simp_thms)
  from e f example_first_accepted 1 2 3 show ?thesis by (simp only: simp_thms)
qed

text \<open>
  Claim C5, as the spec has it, fails: when every draw is \<open>9/10\<close>, the case drawn is
  always 1 and the value drawn always 89, so with only uppercase ticked the loop of
  \<^verbatim>\<open>chooseLetter\<close> never ends, and neither does \<^verbatim>\<open>generatePassword\<close>; with only symbols
  ticked (strength \<^verbatim>\<open>medium\<close>) the loop of \<^verbatim>\<open>chooseNumOrSymbol\<close> never ends.
\<close>

theorem sampling_runs_forever_counterexample:
  "valid_draws (constant_draws (9 / 10)) \<and>
   enabled (example_generator [True, False, False, False]) 0 \<and>
   chooseLetter (example_generator [True, False, False, False]) (constant_draws (9 / 10)) 0 = None \<and>
   generatePassword (example_generator [True, False, False, False]) (constant_draws (9 / 10)) 0 = None \<and>
   enabled (example_generator [False, False, False, True]) 3 \<and>
   chooseNumOrSymbol (example_generator [False, False, False, True]) (constant_draws (9 / 10)) 0 = None"
proof -
  let ?u = "example_generator [True, False, False, False]"
  let ?s = "example_generator [False, False, False, True]"
  let ?rnd = "constant_draws (9 / 10)"
  have v: "valid_draws ?rnd" by (simp add: valid_draws_def constant_draws_def)
  have e: "enabled ?u 0" "\<not> enabled ?u 1" "enabled ?s 3" "\<not> enabled ?s 2"
    by (simp_all add: example_enabled)
  have "chooseLetter_loop ?u ?rnd (js_round (?rnd 0)) (Suc 0) = None"
    by (rule chooseLetter_loop_None) (simp_all add: constant_draws_rejected)
  with e have l: "chooseLetter ?u ?rnd 0 = None" by (simp add: chooseLetter_def)
  have "generatePassword_loop ?u ?rnd (Suc 6) '''' 0 = None"
    using l by (rule generatePassword_loop_Suc_None)
  moreover have "nat (charLength ?u) = Suc 6" by (simp add: example_wf)
  ultimately have gp: "generatePassword ?u ?rnd 0 = None"
    by (simp only: generatePassword_def option.case)
  have "chooseNumOrSymbol_loop ?s ?rnd (Suc 0) = None"
    by (rule chooseNumOrSymbol_loop_None) (simp add: constant_draws_rejected)
  with e have n: "chooseNumOrSymbol ?s ?rnd 0 = None" by (simp add: chooseNumOrSymbol_def)
  from v e l gp n show ?thesis by simp
qed

subsection \<open>C6: share of symbols by strength\<close>

text \<open>
  Claim C6, as the code has it. With only numbers and symbols ticked, every character of
  the password is decided by one draw of its own, the second of the four its position
  consumes: the character is a symbol when \<^verbatim>\<open>Math.round\<close> of 99 times that draw is at most
  the symbol value \<open>p\<close> of the table, that is, the product being exact, when the draw is
  below \<open>symbolThreshold\<close> of the strength, which is \<open>(2 p + 1) / 198\<close>; it is a digit
  otherwise. The draws in \<open>[0, 1)\<close> on which \<^verbatim>\<open>chooseNumOrSymbol\<close> gives a symbol are
  exactly the interval from 0 to the threshold, so for a draw uniform on \<open>[0, 1)\<close> the
  probability of a symbol is the threshold: the share of symbols over \<open>N\<close> equally spaced
  draws is at least the threshold and less than the threshold plus \<open>1 / N\<close>, and tends to
  the threshold. The thresholds are \<open>1/18\<close>, \<open>41/198\<close>, \<open>9/22\<close> and \<open>161/198\<close> (5.56,
  20.71, 40.91 and 81.31 percent) from \<^verbatim>\<open>weak\<close> to \<^verbatim>\<open>veryStrong\<close>: they grow strictly, and
  each is above the 5, 20, 40 and 80 percent of the table. The test does not depend on
  the product being exact: when the product is off by at most \<open>1 / 2 ^ 47\<close>, as a
  floating-point product below 128 is, a draw at least \<open>1 / 2 ^ 47\<close> below the threshold
  still gives a symbol and a draw at least \<open>1 / 2 ^ 47\<close> above it a digit.
\<close>

theorem symbol_probability_by_strength:
  assumes "valid_draws rnd" and "valid_strength g" and "symbols g = symbols_init"
    and "\<not> enabled g 0" and "\<not> enabled g 1" and "enabled g 2" and "enabled g 3"
  shows "(\<exists>g'. generatePassword g rnd i = Some (Inr (g', i + 4 * nat (charLength g))) \<and>
            length (passRes (domElements g')) = nat (charLength g) \<and>
            (\<forall>k<nat (charLength g).
               (is_symbol (passRes (domElements g') ! k) \<longleftrightarrow>
                  rnd (i + 4 * k + 1) < symbolThreshold (strength g)) \<and>
               (is_digit (passRes (domElements g') ! k) \<longleftrightarrow>
                  \<not> rnd (i + 4 * k + 1) < symbolThreshold (strength g)))) \<and>
         draws_giving (symbolChosen g) True = {0..<symbolThreshold (strength g)} \<and>
         (\<forall>N>0. symbolThreshold (strength g) \<le> share_of_draws (symbolChosen g) N \<and>
                 share_of_draws (symbolChosen g) N < symbolThreshold (strength g) + 1 / real N) \<and>
         (\<lambda>N. share_of_draws (symbolChosen g) N) \<longlonglongrightarrow> symbolThreshold (strength g) \<and>
         (\<forall>p x e. js_index strengthProbs (strength g) = Some p \<longrightarrow>
            symbolThreshold (strength g) = (2 * real_of_int (symbol p) + 1) / 198 \<and>
            (js_round (x * 99) \<le> symbol p \<longleftrightarrow> x < symbolThreshold (strength g)) \<and>
            (\<bar>e\<bar> \<le> 1 / 2 ^ 47 \<longrightarrow>
               (x \<le> symbolThreshold (strength g) - 1 / 2 ^ 47 \<longrightarrow>
                  js_round (x * 99 + e) \<le> symbol p) \<and>
               (symbolThreshold (strength g) + 1 / 2 ^ 47 \<le> x \<longrightarrow>
                  \<not> js_round (x * 99 + e) \<le> symbol p))) \<and>
         symbolThreshold 0 = 1 / 18 \<and> symbolThreshold 1 = 41 / 198 \<and>
         symbolThreshold 2 = 9 / 22 \<and> symbolThreshold 3 = 161 / 198 \<and>
         symbolThreshold 0 < symbolThreshold 1 \<and> symbolThreshold 1 < symbolThreshold 2 \<and>
         symbolThreshold 2 < symbolThreshold 3 \<and>
         5 / 100 < symbolThreshold 0 \<and> 20 / 100 < symbolThreshold 1 \<and>
         40 / 100 < symbolThreshold 2 \<and> 80 / 100 < symbolThreshold 3"
proof -
  from generatePassword_loop_numOrSymbol [OF assms, of "nat (charLength g)" "''''" i]
  obtain t where
    t: "generatePassword_loop g rnd (nat (charLength g)) '''' i =
          Some (Inr ('''' @ t, i + 4 * nat (charLength g)))" "length t = nat (charLength g)" and
    tk: "\<forall>k<nat (charLength g).
           (is_symbol (t ! k) \<longleftrightarrow> rnd (i + 4 * k + 1) < symbolThreshold (strength g)) \<and>
           (is_digit (t ! k) \<longleftrightarrow> \<not> rnd (i + 4 * k + 1) < symbolThreshold (strength g))"
    by (elim exE conjE)
  define g' where "g' = g\<lparr>domElements := (domElements g)
      \<lparr>passRes := t,
       passContainer := classList_add ''outputted'' (passContainer (domElements g))\<rparr>\<rparr>"
  have "generatePassword g rnd i = Some (Inr (g', i + 4 * nat (charLength g)))"
    using t(1) by (simp add: generatePassword_def g'_def)
  moreover have "passRes (domElements g') = t" by (simp add: g'_def)
  ultimately have run: "\<exists>g'. generatePassword g rnd i = Some (Inr (g', i + 4 * nat (charLength g))) \<and>
            length (passRes (domElements g')) = nat (charLength g) \<and>
            (\<forall>k<nat (charLength g).
               (is_symbol (passRes (domElements g') ! k) \<longleftrightarrow>
                  rnd (i + 4 * k + 1) < symbolThreshold (strength g)) \<and>
               (is_digit (passRes (domElements g') ! k) \<longleftrightarrow>
                  \<not> rnd (i + 4 * k + 1) < symbolThreshold (strength g)))"
    using t(2) tk by (intro exI [of _ g']) simp
  have band: "draws_giving (symbolChosen g) True = {0..<symbolThreshold (strength g)}"
    by (rule draws_giving_symbolChosen [OF assms(2,3,6,7)])
  have share: "\<forall>N>0. symbolThreshold (strength g) \<le> share_of_draws (symbolChosen g) N \<and>
                 share_of_draws (symbolChosen g) N < symbolThreshold (strength g) + 1 / real N"
    by (intro allI impI conjI) (rule share_of_draws_symbolChosen_bound [OF assms(2,3,6,7)]; assumption)+
  have lim: "(\<lambda>N. share_of_draws (symbolChosen g) N) \<longlonglongrightarrow> symbolThreshold (strength g)"
    by (rule share_of_draws_symbolChosen_limit [OF assms(2,3,6,7)])
  have margin: "\<forall>p x e. js_index strengthProbs (strength g) = Some p \<longrightarrow>
            symbolThreshold (strength g) = (2 * real_of_int (symbol p) + 1) / 198 \<and>
            (js_round (x * 99) \<le> symbol p \<longleftrightarrow> x < symbolThreshold (strength g)) \<and>
            (\<bar>e\<bar> \<le> 1 / 2 ^ 47 \<longrightarrow>
               (x \<le> symbolThreshold (strength g) - 1 / 2 ^ 47 \<longrightarrow>
                  js_round (x * 99 + e) \<le> symbol p) \<and>
               (symbolThreshold (strength g) + 1 / 2 ^ 47 \<le> x \<longrightarrow>
                  \<not> js_round (x * 99 + e) \<le> symbol p))"
  proof (intro allI impI conjI)
    fix p and x e :: real
    assume p: "js_index strengthProbs (strength g) = Some p"
    then show "symbolThreshold (strength g) = (2 * real_of_int (symbol p) + 1) / 198"
      by (simp add: symbolThreshold_def)
    from p show "js_round (x * 99) \<le> symbol p \<longleftrightarrow> x < symbolThreshold (strength g)"
      by (rule symbolThreshold_profile)
    assume e: "\<bar>e\<bar> \<le> 1 / 2 ^ 47"
    note m = symbol_test_margin [OF p e, of x]
    show "js_round (x * 99 + e) \<le> symbol p" if "x \<le> symbolThreshold (strength g) - 1 / 2 ^ 47"
      using m [THEN conjunct1] that by (rule mp)
    show "\<not> js_round (x * 99 + e) \<le> symbol p" if "symbolThreshold (strength g) + 1 / 2 ^ 47 \<le> x"
      using m [THEN conjunct2] that by (rule mp)
  qed
  have table: "symbolThreshold 0 = 1 / 18 \<and> symbolThreshold 1 = 41 / 198 \<and>
         symbolThreshold 2 = 9 / 22 \<and> symbolThreshold 3 = 161 / 198 \<and>
         symbolThreshold 0 < symbolThreshold 1 \<and> symbolThreshold 1 < symbolThreshold 2 \<and>
         symbolThreshold 2 < symbolThreshold 3 \<and>
         5 / 100 < symbolThreshold 0 \<and> 20 / 100 < symbolThreshold 1 \<and>
         40 / 100 < symbolThreshold 2 \<and> 80 / 100 < symbolThreshold 3"
    by (simp add: symbolThreshold_values)
  show ?thesis
    by (rule conjI [OF run], rule conjI [OF band], rule conjI [OF share], rule conjI [OF lim],
        rule conjI [OF margin], rule table)
qed

theorem symbol_probability_by_strength_witness:
  "valid_draws (cycle_draws [9 / 10, 1 / 10]) \<and>
   valid_strength (example_generator [False, False, True, True]) \<and>
   symbols (example_generator [False, False, True, True]) = symbols_init \<and>
   \<not> enabled (example_generator [False, False, True, True]) 0 \<and>
   \<not> enabled (example_generator [False, False, True, True]) 1 \<and>
   enabled (example_generator [False, False, True, True]) 2 \<and>
   enabled (example_generator [False, False, True, True]) 3 \<and>
   cycle_draws [9 / 10, 1 / 10] 1 < symbolThreshold (strength (example_generator [False, False, True, True])) \<and>
   (\<exists>g'. generatePassword (example_generator [False, False, True, True])
            (cycle_draws [9 / 10, 1 / 10]) 0 = Some (Inr (g', 28)) \<and>
          length (passRes (domElements g')) = 7 \<and>
          is_symbol (passRes (domElements g') ! 0)) \<and>
   draws_giving (symbolChosen (example_generator [False, False, True, True])) True = {0..<41 / 198} \<and>
   41 / 198 \<le> share_of_draws (symbolChosen (example_generator [False, False, True, True])) 1000 \<and>
   share_of_draws (symbolChosen (example_generator [False, False, True, True])) 1000
     < 41 / 198 + 1 / 1000 \<and>
   js_round (1 / 10 * 99 + 1 / 2 ^ 47) \<le> 20"
proof -
  let ?g = "example_generator [False, False, True, True]"
  let ?rnd = "cycle_draws [9 / 10, 1 / 10]"
  have e: "\<not> enabled ?g 0" "\<not> enabled ?g 1" "enabled ?g 2" "enabled ?g 3"
    by (simp_all add: example_enabled)
  have s: "strength ?g = 1" by (simp add: example_generator_def)
  have th: "?rnd 1 < symbolThreshold (strength ?g)"
    by (simp add: cycle_draws_def s symbolThreshold_values)
  have n: "nat (charLength ?g) = 7" by (simp add: example_wf)
  note c6 = symbol_probability_by_strength [OF example_valid_draws example_wf(1) example_wf(2) e, of 0]
  note c2 = conjunct2
  from c6 [THEN conjunct1]
  obtain g' where
    r: "generatePassword ?g ?rnd 0 = Some (Inr (g', 0 + 4 * nat (charLength ?g)))"
       "length (passRes (domElements g')) = nat (charLength ?g)" and
    k: "\<forall>k<nat (charLength ?g).
          (is_symbol (passRes (domElements g') ! k) \<longleftrightarrow>
             ?rnd (0 + 4 * k + 1) < symbolThreshold (strength ?g)) \<and>
          (is_digit (passRes (domElements g') ! k) \<longleftrightarrow>
             \<not> ?rnd (0 + 4 * k + 1) < symbolThreshold (strength ?g))"
    by (elim exE conjE)
  from k n have "is_symbol (passRes (domElements g') ! 0) \<longleftrightarrow>
      ?rnd (0 + 4 * 0 + 1) < symbolThreshold (strength ?g)"
    by (simp del: One_nat_def)
  with th have "is_symbol (passRes (domElements g') ! 0)" by simp
  with r n have run: "\<exists>g'. generatePassword ?g ?rnd 0 = Some (Inr (g', 28)) \<and>
          length (passRes (domElements g')) = 7 \<and> is_symbol (passRes (domElements g') ! 0)"
    by (intro exI [of _ g']) simp
  from c6 [THEN c2, THEN conjunct1]
  have band: "draws_giving (symbolChosen ?g) True = {0..<41 / 198}"
    by (simp only: s symbolThreshold_values)
  from c6 [THEN c2, THEN c2, THEN conjunct1, THEN spec, of 1000]
  have share: "41 / 198 \<le> share_of_draws (symbolChosen ?g) 1000"
    "share_of_draws (symbolChosen ?g) 1000 < 41 / 198 + 1 / 1000"
    by (simp_all add: s symbolThreshold_values)
  have a: "\<bar>1 / 2 ^ 47 :: real\<bar> \<le> 1 / 2 ^ 47" by simp
  have x: "(1 / 10 :: real) \<le> symbolThreshold (strength ?g) - 1 / 2 ^ 47"
    by (simp add: s symbolThreshold_values)
  note m0 = c6 [THEN c2, THEN c2, THEN c2, THEN c2, THEN conjunct1, THEN spec, THEN spec,
      THEN spec, THEN mp, OF example_profile, THEN c2, THEN c2]
  note m1 = m0 [THEN mp, OF a, THEN conjunct1, THEN mp, OF x]
  have m: "js_round (1 / 10 * 99 + 1 / 2 ^ 47) \<le> 20"
    using m1 by simp
  from example_valid_draws example_wf(1) [of "[False, False, True, True]"]
    example_wf(2) [of "[False, False, True, True]"] e th run band share m
  show ?thesis by (intro conjI)
qed

text \<open>
  Claim C6, as the spec has it, fails: the probability of a symbol is not the percentage
  of the table. At \<^verbatim>\<open>weak\<close> (symbol value 5) the draw \<open>11/200\<close>, above 5 percent, still
  gives a symbol, and the run whose draws are all \<open>11/200\<close> writes seven symbols; the
  draws that give a symbol are those below \<open>1/18\<close>, and over 100000 equally spaced draws
  the share of symbols is 5.556 percent. At \<^verbatim>\<open>veryStrong\<close> (symbol value 80) the draws
  that give a symbol are those below \<open>161/198\<close>, and the share is 81.314 percent.
\<close>

theorem symbol_share_exceeds_table_counterexample:
  "valid_strength (example_generator_at 0 [False, False, True, True]) \<and>
   strength (example_generator_at 0 [False, False, True, True]) = 0 \<and>
   \<not> enabled (example_generator_at 0 [False, False, True, True]) 0 \<and>
   \<not> enabled (example_generator_at 0 [False, False, True, True]) 1 \<and>
   enabled (example_generator_at 0 [False, False, True, True]) 2 \<and>
   enabled (example_generator_at 0 [False, False, True, True]) 3 \<and>
   map_option symbol (js_index strengthProbs 0) = Some 5 \<and>
   map_option symbol (js_index strengthProbs 3) = Some 80 \<and>
   (5 / 100 :: real) < 11 / 200 \<and>
   symbolChosen (example_generator_at 0 [False, False, True, True]) (11 / 200) \<and>
   (\<exists>g'. generatePassword (example_generator_at 0 [False, False, True, True])
            (constant_draws (11 / 200)) 0 = Some (Inr (g', 28)) \<and>
          passRes (domElements g') = ''!!!!!!!'') \<and>
   is_symbol CHR ''!'' \<and>
   draws_giving (symbolChosen (example_generator_at 0 [False, False, True, True])) True = {0..<1 / 18} \<and>
   share_of_draws (symbolChosen (example_generator_at 0 [False, False, True, True])) 100000
     = 5556 / 100000 \<and>
   draws_giving (symbolChosen (example_generator_at 3 [False, False, True, True])) True
     = {0..<161 / 198} \<and>
   share_of_draws (symbolChosen (example_generator_at 3 [False, False, True, True])) 100000
     = 81314 / 100000"
proof -
  let ?g0 = "example_generator_at 0 [False, False, True, True]"
  let ?g3 = "example_generator_at 3 [False, False, True, True]"
  have e0: "\<not> enabled ?g0 0" "\<not> enabled ?g0 1" "enabled ?g0 2" "enabled ?g0 3"
    by (simp_all add: example_at_wf example_enabled)
  have e3: "enabled ?g3 2" "enabled ?g3 3"
    by (simp_all add: example_at_wf example_enabled)
  note v0 = example_at_valid(1) [of "[False, False, True, True]"]
  note v3 = example_at_valid(2) [of "[False, False, True, True]"]
  note sy0 = example_at_wf(2) [of 0 "[False, False, True, True]"]
  note sy3 = example_at_wf(2) [of 3 "[False, False, True, True]"]
  have s: "strength ?g0 = 0" "strength ?g3 = 3" by (simp_all add: example_at_wf)
  have p: "map_option symbol (js_index strengthProbs 0) = Some 5"
    "map_option symbol (js_index strengthProbs 3) = Some 80"
    by (simp_all add: js_index_def strengthProbs_def)
  have c: "symbolChosen ?g0 (11 / 200)"
    using symbolChosen_iff [OF v0 sy0 e0(3,4), of "11 / 200"]
    by (simp add: s symbolThreshold_values)
  have b0: "draws_giving (symbolChosen ?g0) True = {0..<1 / 18}"
    using draws_giving_symbolChosen [OF v0 sy0 e0(3,4)] by (simp only: s symbolThreshold_values)
  have b3: "draws_giving (symbolChosen ?g3) True = {0..<161 / 198}"
    using draws_giving_symbolChosen [OF v3 sy3 e3] by (simp only: s symbolThreshold_values)
  have c0: "\<lceil>1 / 18 * real 100000\<rceil> = 5556" by (simp add: ceiling_eq_iff)
  have c3: "\<lceil>161 / 198 * real 100000\<rceil> = 81314" by (simp add: ceiling_eq_iff)
  have sh0: "share_of_draws (symbolChosen ?g0) 100000 = 5556 / 100000"
    using share_of_draws_symbolChosen [OF v0 sy0 e0(3,4), of 100000]
    by (simp only: s symbolThreshold_values c0)
  have sh3: "share_of_draws (symbolChosen ?g3) 100000 = 81314 / 100000"
    using share_of_draws_symbolChosen [OF v3 sy3 e3, of 100000]
    by (simp only: s symbolThreshold_values c3)
  have n: "nat (charLength ?g0) = 7" by (simp add: example_at_wf)
  have run: "\<exists>g'. generatePassword ?g0 (constant_draws (11 / 200)) 0 = Some (Inr (g', 28)) \<and>
          passRes (domElements g') = ''!!!!!!!''"
    unfolding generatePassword_def n example_at_run by simp
  have sym: "is_symbol CHR ''!''" by (simp add: is_symbol_def symbols_init_def)
  have "(5 / 100 :: real) < 11 / 200" by simp
  with v0 s(1) e0 p c run sym b0 sh0 b3 sh3 show ?thesis by (intro conjI)
qed

subsection \<open>C7: no letter class ticked\<close>

text \<open>
  Claim C7. With both letter classes unticked and numbers or symbols ticked, every
  character of the password that \<^verbatim>\<open>generatePassword\<close> writes is a digit or a character of
  the symbol string and is no ASCII letter, for every target length and whatever the
  draws are; the call returns on every sequence of draws that is fair to the generator.
\<close>

theorem generatePassword_without_letters:
  assumes "valid_draws rnd" and "valid_strength g" and "symbols g = symbols_init"
    and "\<not> enabled g 0" and "\<not> enabled g 1" and "enabled g 2 \<or> enabled g 3"
  shows "(\<forall>r. generatePassword g rnd i = Some r \<longrightarrow>
            (\<exists>g' i'. r = Inr (g', i') \<and>
               (\<forall>c\<in>set (passRes (domElements g')). (is_digit c \<or> is_symbol c) \<and> \<not> is_letter c))) \<and>
         (fair_draws g rnd \<longrightarrow> generatePassword g rnd i \<noteq> None)"
proof (intro conjI allI impI)
  fix r
  assume "generatePassword g rnd i = Some r"
  from generatePassword_Some [OF assms(1-3) this] obtain t i' where
    r: "r = Inr (g\<lparr>domElements := (domElements g)
                        \<lparr>passRes := t,
                         passContainer := classList_add ''outputted'' (passContainer (domElements g))\<rparr>\<rparr>, i')"
    and t: "\<forall>c\<in>set t. class_of_char g c" by blast
  have "\<forall>c\<in>set t. (is_digit c \<or> is_symbol c) \<and> \<not> is_letter c"
    using t assms(4,5) digit_not_letter symbol_not_letter
    by (auto simp: class_of_char_def)
  with r show "\<exists>g' i'. r = Inr (g', i') \<and>
               (\<forall>c\<in>set (passRes (domElements g')). (is_digit c \<or> is_symbol c) \<and> \<not> is_letter c)"
    by simp
next
  assume "fair_draws g rnd"
  then show "generatePassword g rnd i \<noteq> None" by (rule generatePassword_terminates)
qed

theorem generatePassword_without_letters_witness:
  "valid_draws (cycle_draws [9 / 10, 1 / 10]) \<and>
   valid_strength (example_generator [False, False, True, True]) \<and>
   \<not> enabled (example_generator [False, False, True, True]) 0 \<and>
   \<not> enabled (example_generator [False, False, True, True]) 1 \<and>
   enabled (example_generator [False, False, True, True]) 3 \<and>
   fair_draws (example_generator [False, False, True, True]) (cycle_draws [9 / 10, 1 / 10]) \<and>
   (\<exists>g' i'. generatePassword (example_generator [False, False, True, True])
               (cycle_draws [9 / 10, 1 / 10]) 0 = Some (Inr (g', i')) \<and>
             (\<forall>c\<in>set (passRes (domElements g')). \<not> is_letter c))"
proof -
  let ?g = "example_generator [False, False, True, True]"
  let ?rnd = "cycle_draws [9 / 10, 1 / 10]"
  note v = example_valid_draws and s = example_wf(1) [of "[False, False, True, True]"]
    and sy = example_wf(2) [of "[False, False, True, True]"]
    and f = example_fair_any [of False False True True]
  have d: "\<not> enabled ?g 0" "\<not> enabled ?g 1" "enabled ?g 2 \<or> enabled ?g 3" "enabled ?g 3"
    by (simp_all add: example_enabled)
  from generatePassword_without_letters [OF v s sy d(1-3), of 0] f
  have "\<exists>g' i'. generatePassword ?g ?rnd 0 = Some (Inr (g', i')) \<and>
             (\<forall>c\<in>set (passRes (domElements g')). \<not> is_letter c)"
    by fastforce
  with v s d f show ?thesis by blast
qed

subsection \<open>C8: case of the letters\<close>

text \<open>
  Claim C8. With uppercase ticked and lowercase not, every letter \<^verbatim>\<open>chooseLetter\<close> returns
  is an uppercase letter and every letter of the password that \<^verbatim>\<open>generatePassword\<close>
  writes is uppercase; with lowercase ticked and uppercase not, they are lowercase;
  whatever the draws are.
\<close>

theorem letter_case_follows_checkboxes:
  assumes "valid_draws rnd" and "valid_strength g" and "symbols g = symbols_init"
  shows "(enabled g 0 \<and> \<not> enabled g 1 \<longrightarrow>
            (\<forall>l i'. chooseLetter g rnd i = Some (l, i') \<longrightarrow> (\<exists>c. l = [c] \<and> is_upper c)) \<and>
            (\<forall>g' i'. generatePassword g rnd i = Some (Inr (g', i')) \<longrightarrow>
               (\<forall>c\<in>set (passRes (domElements g')). is_letter c \<longrightarrow> is_upper c))) \<and>
         (\<not> enabled g 0 \<and> enabled g 1 \<longrightarrow>
            (\<forall>l i'. chooseLetter g rnd i = Some (l, i') \<longrightarrow> (\<exists>c. l = [c] \<and> is_lower c)) \<and>
            (\<forall>g' i'. generatePassword g rnd i = Some (Inr (g', i')) \<longrightarrow>
               (\<forall>c\<in>set (passRes (domElements g')). is_letter c \<longrightarrow> is_lower c)))"
proof -
  have letters: "\<exists>c. l = [c] \<and> (is_upper c \<and> enabled g 0 \<or> is_lower c \<and> enabled g 1)"
    if "chooseLetter g rnd i = Some (l, i')" "enabled g 0 \<or> enabled g 1" for l i'
    using chooseLetter_Some [OF assms(1) that(1)] that(2) by blast
  have chars: "\<forall>c\<in>set (passRes (domElements g')). class_of_char g c"
    if "generatePassword g rnd i = Some (Inr (g', i'))" for g' i'
    using generatePassword_Some [OF assms that] by auto
  have up: "is_upper c" if "class_of_char g c" "is_letter c" "\<not> enabled g 1" for c
    using that digit_not_letter symbol_not_letter by (auto simp: class_of_char_def)
  have low: "is_lower c" if "class_of_char g c" "is_letter c" "\<not> enabled g 0" for c
    using that digit_not_letter symbol_not_letter by (auto simp: class_of_char_def)
  show ?thesis
  proof (intro conjI impI allI ballI)
    fix l i' assume "enabled g 0 \<and> \<not> enabled g 1" "chooseLetter g rnd i = Some (l, i')"
    with letters [of l i'] show "\<exists>c. l = [c] \<and> is_upper c" by blast
  next
    fix g' i' c
    assume "enabled g 0 \<and> \<not> enabled g 1" "generatePassword g rnd i = Some (Inr (g', i'))"
      "c \<in> set (passRes (domElements g'))" "is_letter c"
    with chars [of g' i'] up [of c] show "is_upper c" by blast
  next
    fix l i' assume "\<not> enabled g 0 \<and> enabled g 1" "chooseLetter g rnd i = Some (l, i')"
    with letters [of l i'] show "\<exists>c. l = [c] \<and> is_lower c" by blast
  next
    fix g' i' c
    assume "\<not> enabled g 0 \<and> enabled g 1" "generatePassword g rnd i = Some (Inr (g', i'))"
      "c \<in> set (passRes (domElements g'))" "is_letter c"
    with chars [of g' i'] low [of c] show "is_lower c" by blast
  qed
qed

theorem letter_case_follows_checkboxes_witness:
  "valid_draws (cycle_draws [9 / 10, 1 / 10]) \<and>
   valid_strength (example_generator [True, False, True, True]) \<and>
   enabled (example_generator [True, False, True, True]) 0 \<and>
   \<not> enabled (example_generator [True, False, True, True]) 1 \<and>
   chooseLetter (example_generator [True, False, True, True])
     (cycle_draws [9 / 10, 1 / 10]) 0 = Some (''X'', 3) \<and> is_upper CHR ''X'' \<and>
   (\<exists>g' i'. generatePassword (example_generator [True, False, True, True])
               (cycle_draws [9 / 10, 1 / 10]) 0 = Some (Inr (g', i')) \<and>
             (\<forall>c\<in>set (passRes (domElements g')). is_letter c \<longrightarrow> is_upper c)) \<and>
   valid_strength (example_generator [False, True, True, True]) \<and>
   \<not> enabled (example_generator [False, True, True, True]) 0 \<and>
   enabled (example_generator [False, True, True, True]) 1 \<and>
   chooseLetter (example_generator [False, True, True, True])
     (cycle_draws [9 / 10, 1 / 10]) 0 = Some (''d'', 2) \<and> is_lower CHR ''d'' \<and>
   (\<exists>g' i'. generatePassword (example_generator [False, True, True, True])
               (cycle_draws [9 / 10, 1 / 10]) 0 = Some (Inr (g', i')) \<and>
             (\<forall>c\<in>set (passRes (domElements g')). is_letter c \<longrightarrow> is_lower c))"
proof -
  let ?u = "example_generator [True, False, True, True]"
  let ?l = "example_generator [False, True, True, True]"
  let ?rnd = "cycle_draws [9 / 10, 1 / 10]"
  note v = example_valid_draws
  have eu: "enabled ?u 0" "\<not> enabled ?u 1" and el: "\<not> enabled ?l 0" "enabled ?l 1"
    by (simp_all add: example_enabled)
  note u = letter_case_follows_checkboxes
    [OF v example_wf(1) example_wf(2), of "[True, False, True, True]" 0]
  note l = letter_case_follows_checkboxes
    [OF v example_wf(1) example_wf(2), of "[False, True, True, True]" 0]
  from u eu chooseLetter_example_upper have "\<exists>c. ''X'' = [c] \<and> is_upper c" by blast
  then have 1: "is_upper CHR ''X''" by simp
  from l el chooseLetter_example_lower have "\<exists>c. ''d'' = [c] \<and> is_lower c" by blast
  then have 2: "is_lower CHR ''d''" by simp
  obtain ru where ru: "generatePassword ?u ?rnd 0 = Some ru"
    using generatePassword_terminates [OF example_fair_any, of True False True True 0] by fastforce
  from generatePassword_Some [OF v example_wf(1) example_wf(2) ru] obtain gu' ju where
    "generatePassword ?u ?rnd 0 = Some (Inr (gu', ju))" using ru by blast
  moreover from u eu have "\<forall>g' i'. generatePassword ?u ?rnd 0 = Some (Inr (g', i')) \<longrightarrow>
             (\<forall>c\<in>set (passRes (domElements g')). is_letter c \<longrightarrow> is_upper c)" by simp
  ultimately have 3: "\<exists>g' i'. generatePassword ?u ?rnd 0 = Some (Inr (g', i')) \<and>
             (\<forall>c\<in>set (passRes (domElements g')). is_letter c \<longrightarrow> is_upper c)" by meson
  obtain rl where rl: "generatePassword ?l ?rnd 0 = Some rl"
    using generatePassword_terminates [OF example_fair_any, of False True True True 0] by fastforce
  from generatePassword_Some [OF v example_wf(1) example_wf(2) rl] obtain gl' jl where
    "generatePassword ?l ?rnd 0 = Some (Inr (gl', jl))" using rl by blast
  moreover from l el have "\<forall>g' i'. generatePassword ?l ?rnd 0 = Some (Inr (g', i')) \<longrightarrow>
             (\<forall>c\<in>set (passRes (domElements g')). is_letter c \<longrightarrow> is_lower c)" by simp
  ultimately have 4: "\<exists>g' i'. generatePassword ?l ?rnd 0 = Some (Inr (g', i')) \<and>
             (\<forall>c\<in>set (passRes (domElements g')). is_letter c \<longrightarrow> is_lower c)" by meson
  from v eu el 1 2 3 4 chooseLetter_example_upper chooseLetter_example_lower
    example_wf(1) [of "[True, False, True, True]"] example_wf(1) [of "[False, True, True, True]"]
  show ?thesis by (simp only: simp_thms)
qed

subsection \<open>C9: the configuration is left as it was\<close>

text \<open>
  Claim C9. A call of \<^verbatim>\<open>generatePassword\<close> leaves the configuration as it was: the
  length, the strength, the checkbox states and the symbol string (and the titles) of the
  generator after the call are those before it, for every generator and whatever the
  draws are. The call writes only to the page. (\<^verbatim>\<open>chooseLetter\<close> and
  \<^verbatim>\<open>chooseNumOrSymbol\<close> assign to no field: they return a text and no generator.)
\<close>

theorem generatePassword_keeps_configuration:
  "(\<forall>g' i'. generatePassword g rnd i = Some (Inr (g', i')) \<longrightarrow>
      charLength g' = charLength g \<and> strength g' = strength g \<and>
      passwordParts g' = passwordParts g \<and> symbols g' = symbols g \<and>
      strengthTitles g' = strengthTitles g) \<and>
   (fair_draws g rnd \<longrightarrow> generatePassword g rnd i \<noteq> None)"
proof (rule conjI)
  show "\<forall>g' i'. generatePassword g rnd i = Some (Inr (g', i')) \<longrightarrow>
      charLength g' = charLength g \<and> strength g' = strength g \<and>
      passwordParts g' = passwordParts g \<and> symbols g' = symbols g \<and>
      strengthTitles g' = strengthTitles g"
  proof (intro allI impI)
    fix g' i'
    assume r: "generatePassword g rnd i = Some (Inr (g', i'))"
    then obtain lr where lr: "generatePassword_loop g rnd (nat (charLength g)) '''' i = Some lr"
      by (cases "generatePassword_loop g rnd (nat (charLength g)) '''' i")
        (simp_all add: generatePassword_def)
    from r lr obtain password where
      "g' = g\<lparr>domElements := (domElements g)
                  \<lparr>passRes := password,
                   passContainer := classList_add ''outputted'' (passContainer (domElements g))\<rparr>\<rparr>"
      by (cases lr) (auto simp: generatePassword_def)
    then show "charLength g' = charLength g \<and> strength g' = strength g \<and>
      passwordParts g' = passwordParts g \<and> symbols g' = symbols g \<and>
      strengthTitles g' = strengthTitles g" by simp
  qed
  show "fair_draws g rnd \<longrightarrow> generatePassword g rnd i \<noteq> None"
    using generatePassword_terminates by blast
qed

theorem generatePassword_keeps_configuration_witness:
  "fair_draws (example_generator [True, True, True, True]) (cycle_draws [9 / 10, 1 / 10]) \<and>
   (\<exists>g' i'. generatePassword (example_generator [True, True, True, True])
               (cycle_draws [9 / 10, 1 / 10]) 0 = Some (Inr (g', i')) \<and>
      charLength g' = 7 \<and> strength g' = 1 \<and> passwordParts g' = [True, True, True, True] \<and>
      symbols g' = symbols_init)"
proof -
  let ?g = "example_generator [True, True, True, True]"
  let ?rnd = "cycle_draws [9 / 10, 1 / 10]"
  note f = example_fair_any [of True True True True]
  note k = generatePassword_keeps_configuration [of ?g ?rnd 0]
  from k f obtain r where r: "generatePassword ?g ?rnd 0 = Some r" by fastforce
  from generatePassword_Some [OF example_valid_draws example_wf(1) example_wf(2) r] r
  obtain g' i' where g': "generatePassword ?g ?rnd 0 = Some (Inr (g', i'))" by blast
  with k have "charLength g' = charLength ?g \<and> strength g' = strength ?g \<and>
      passwordParts g' = passwordParts ?g \<and> symbols g' = symbols ?g" by blast
  then have "charLength g' = 7 \<and> strength g' = 1 \<and> passwordParts g' = [True, True, True, True] \<and>
      symbols g' = symbols_init" by (simp add: example_generator_def)
  with g' f show ?thesis by blast
qed

subsection \<open>C10: indexed reads\<close>

text \<open>
  Claim C10. With a strength in \<open>{0, 1, 2, 3}\<close> (four checkboxes, the initial symbol
  string, draws in \<open>[0, 1)\<close>) every indexed read of a generation is in bounds. The
  strength selects a profile of the table. \<^verbatim>\<open>chooseLetter_reads\<close> is \<^verbatim>\<open>chooseLetter\<close> with
  its reads of \<^verbatim>\<open>passwordParts\<close> written down, and returns what \<^verbatim>\<open>chooseLetter\<close> returns:
  every index it reads, in the condition before the loop and in each test of the loop, is
  0 or 1 and selects a checkbox. The indices 2 and 3 that \<^verbatim>\<open>chooseNumOrSymbol\<close> reads
  select a checkbox. The statements after the rejection loop return one character, never
  \<^verbatim>\<open>undefined\<close>: in the symbol branch they return the character of the symbol string at
  an index between 0 and the last position. The case drawn is 0 or 1 at every draw, and
  the symbol index is in range at every draw. So no read yields \<^verbatim>\<open>undefined\<close> and no call
  throws.
\<close>

theorem indexed_reads_in_bounds:
  assumes "valid_draws rnd" and "valid_strength g" and "length (passwordParts g) = 4"
    and "symbols g = symbols_init"
  shows "js_index strengthProbs (strength g) \<noteq> None \<and>
         (\<forall>i. map_option snd (chooseLetter_reads g rnd i) = chooseLetter g rnd i) \<and>
         (\<forall>i reads chosen i'. chooseLetter_reads g rnd i = Some (reads, chosen, i') \<longrightarrow>
            reads \<noteq> [] \<and> set reads \<subseteq> {0, 1} \<and>
            (\<forall>k\<in>set reads. js_index (passwordParts g) k \<noteq> None)) \<and>
         js_index (passwordParts g) 2 \<noteq> None \<and> js_index (passwordParts g) 3 \<noteq> None \<and>
         (\<forall>choice i. \<exists>c. chooseNumOrSymbol_emit g rnd choice i = Inr (Str [c], Suc i)) \<and>
         (\<forall>choice i p. js_index strengthProbs (strength g) = Some p \<longrightarrow> choice \<le> symbol p \<longrightarrow>
            (\<exists>k. 0 \<le> k \<and> k \<le> int (length (symbols g)) - 1 \<and>
                 string_index (symbols g) k \<noteq> Undefined \<and>
                 chooseNumOrSymbol_emit g rnd choice i = Inr (string_index (symbols g) k, Suc i))) \<and>
         (\<forall>k. js_round (rnd k) \<in> {0, 1} \<and>
               js_index (passwordParts g) (js_round (rnd k)) \<noteq> None) \<and>
         (\<forall>k i r. chooseLetter_loop g rnd (js_round (rnd k)) i = Some r \<longrightarrow> fst r \<in> {0, 1}) \<and>
         (\<forall>k. 0 \<le> js_round (rnd k * real_of_int (int (length (symbols g)) - 1)) \<and>
               js_round (rnd k * real_of_int (int (length (symbols g)) - 1))
                 \<le> int (length (symbols g)) - 1 \<and>
               string_index (symbols g)
                 (js_round (rnd k * real_of_int (int (length (symbols g)) - 1))) \<noteq> Undefined) \<and>
         (\<forall>i r. chooseNumOrSymbol g rnd i = Some r \<longrightarrow> (\<exists>t i'. r = Inr (Str t, i'))) \<and>
         (\<forall>i r. generatePassword g rnd i = Some r \<longrightarrow> (\<exists>g' i'. r = Inr (g', i')))"
proof -
  have unit: "js_round (rnd k) = 0 \<or> js_round (rnd k) = 1" for k
    using assms(1) js_round_unit [of "rnd k"] by (simp add: valid_draws_def)
  have 1: "js_index strengthProbs (strength g) \<noteq> None"
    using valid_strength_profile [OF assms(2)] by auto
  have t1: "\<forall>i. map_option snd (chooseLetter_reads g rnd i) = chooseLetter g rnd i"
    by (simp add: chooseLetter_reads_result)
  have t2: "\<forall>i reads chosen i'. chooseLetter_reads g rnd i = Some (reads, chosen, i') \<longrightarrow>
            reads \<noteq> [] \<and> set reads \<subseteq> {0, 1} \<and>
            (\<forall>k\<in>set reads. js_index (passwordParts g) k \<noteq> None)"
    by (intro allI impI) (rule chooseLetter_reads_in_bounds [OF assms(1,3)])
  have t3: "js_index (passwordParts g) 2 \<noteq> None \<and> js_index (passwordParts g) 3 \<noteq> None"
    using assms(3) by (simp add: js_index_def)
  have t4: "\<forall>choice i. \<exists>c. chooseNumOrSymbol_emit g rnd choice i = Inr (Str [c], Suc i)"
    by (intro allI) (rule chooseNumOrSymbol_emit_char [OF assms(1,2,4)])
  have 2: "\<forall>k. js_round (rnd k) \<in> {0, 1} \<and> js_index (passwordParts g) (js_round (rnd k)) \<noteq> None"
  proof
    fix k
    show "js_round (rnd k) \<in> {0, 1} \<and> js_index (passwordParts g) (js_round (rnd k)) \<noteq> None"
      using unit [of k] assms(3) by (auto simp: js_index_def)
  qed
  have 3: "\<forall>k i r. chooseLetter_loop g rnd (js_round (rnd k)) i = Some r \<longrightarrow> fst r \<in> {0, 1}"
  proof (intro allI impI)
    fix k i r
    assume "chooseLetter_loop g rnd (js_round (rnd k)) i = Some r"
    from chooseLetter_loop_Some [OF this] obtain k' where
      "fst r = js_round (rnd k) \<or> fst r = js_round (rnd k')" by blast
    with unit [of k] unit [of k'] show "fst r \<in> {0, 1}" by auto
  qed
  have len: "length (symbols g) = 34" using assms(4) by (simp add: symbols_init_def)
  have 4: "\<forall>k. 0 \<le> js_round (rnd k * real_of_int (int (length (symbols g)) - 1)) \<and>
           js_round (rnd k * real_of_int (int (length (symbols g)) - 1))
             \<le> int (length (symbols g)) - 1 \<and>
           string_index (symbols g)
             (js_round (rnd k * real_of_int (int (length (symbols g)) - 1))) \<noteq> Undefined"
  proof
    fix k
    have "0 \<le> js_round (rnd k * real_of_int 33) \<and> js_round (rnd k * real_of_int 33) \<le> 33"
      using assms(1) by (intro js_round_range) (simp_all add: valid_draws_def)
    then show "0 \<le> js_round (rnd k * real_of_int (int (length (symbols g)) - 1)) \<and>
           js_round (rnd k * real_of_int (int (length (symbols g)) - 1))
             \<le> int (length (symbols g)) - 1 \<and>
           string_index (symbols g)
             (js_round (rnd k * real_of_int (int (length (symbols g)) - 1))) \<noteq> Undefined"
      by (simp add: len string_index_def)
  qed
  have t5: "\<forall>choice i p. js_index strengthProbs (strength g) = Some p \<longrightarrow> choice \<le> symbol p \<longrightarrow>
            (\<exists>k. 0 \<le> k \<and> k \<le> int (length (symbols g)) - 1 \<and>
                 string_index (symbols g) k \<noteq> Undefined \<and>
                 chooseNumOrSymbol_emit g rnd choice i = Inr (string_index (symbols g) k, Suc i))"
  proof (intro allI impI)
    fix choice i p
    assume p: "js_index strengthProbs (strength g) = Some p" and c: "choice \<le> symbol p"
    define k where "k = js_round (rnd i * real_of_int (int (length (symbols g)) - 1))"
    from 4 have "0 \<le> k \<and> k \<le> int (length (symbols g)) - 1 \<and>
        string_index (symbols g) k \<noteq> Undefined"
      unfolding k_def by (rule spec)
    moreover from p c have "chooseNumOrSymbol_emit g rnd choice i =
        Inr (string_index (symbols g) k, Suc i)"
      by (simp add: chooseNumOrSymbol_emit_def k_def)
    ultimately show "\<exists>k. 0 \<le> k \<and> k \<le> int (length (symbols g)) - 1 \<and>
                 string_index (symbols g) k \<noteq> Undefined \<and>
                 chooseNumOrSymbol_emit g rnd choice i = Inr (string_index (symbols g) k, Suc i)"
      by (intro exI [of _ k]) simp
  qed
  have 5: "\<forall>i r. chooseNumOrSymbol g rnd i = Some r \<longrightarrow> (\<exists>t i'. r = Inr (Str t, i'))"
  proof (intro allI impI)
    fix i r
    assume "chooseNumOrSymbol g rnd i = Some r"
    from chooseNumOrSymbol_Some [OF assms(1,2,4) this] show "\<exists>t i'. r = Inr (Str t, i')"
      by blast
  qed
  have 6: "\<forall>i r. generatePassword g rnd i = Some r \<longrightarrow> (\<exists>g' i'. r = Inr (g', i'))"
  proof (intro allI impI)
    fix i r
    assume "generatePassword g rnd i = Some r"
    from generatePassword_Some [OF assms(1,2,4) this] show "\<exists>g' i'. r = Inr (g', i')" by blast
  qed
  from 1 t1 t2 t3 t4 t5 2 3 4 5 6 show ?thesis by (intro conjI) (simp_all only: simp_thms)
qed

theorem indexed_reads_in_bounds_witness:
  "valid_draws (cycle_draws [9 / 10, 1 / 10]) \<and>
   valid_strength (example_generator [True, False, True, True]) \<and>
   length (passwordParts (example_generator [True, False, True, True])) = 4 \<and>
   symbols (example_generator [True, False, True, True]) = symbols_init \<and>
   js_index strengthProbs (strength (example_generator [True, False, True, True])) \<noteq> None \<and>
   chooseLetter_reads (example_generator [True, False, True, True])
     (cycle_draws [9 / 10, 1 / 10]) 0 = Some ([0, 1, 0], ''X'', 3) \<and>
   chooseLetter (example_generator [True, False, True, True])
     (cycle_draws [9 / 10, 1 / 10]) 0 = Some (''X'', 3) \<and>
   set [0, 1, 0] \<subseteq> {0, 1 :: int} \<and>
   js_index (passwordParts (example_generator [True, False, True, True])) 0 \<noteq> None \<and>
   js_index (passwordParts (example_generator [True, False, True, True])) 1 \<noteq> None \<and>
   string_index (symbols (example_generator [True, False, True, True]))
     (js_round (cycle_draws [9 / 10, 1 / 10] 0 *
        real_of_int (int (length (symbols (example_generator [True, False, True, True]))) - 1)))
     \<noteq> Undefined \<and>
   (\<exists>c. chooseNumOrSymbol_emit (example_generator [True, False, True, True])
      (cycle_draws [9 / 10, 1 / 10]) 10 2 = Inr (Str [c], 3)) \<and>
   (\<exists>k. 0 \<le> k \<and> k \<le> 33 \<and>
      chooseNumOrSymbol_emit (example_generator [True, False, True, True])
        (cycle_draws [9 / 10, 1 / 10]) 10 2 = Inr (string_index symbols_init k, 3)) \<and>
   (\<exists>g' i'. generatePassword (example_generator [True, False, True, True])
      (cycle_draws [9 / 10, 1 / 10]) 0 = Some (Inr (g', i')))"
proof -
  let ?g = "example_generator [True, False, True, True]"
  let ?rnd = "cycle_draws [9 / 10, 1 / 10]"
  have l: "length (passwordParts ?g) = 4" by (simp add: example_generator_def)
  note w = example_valid_draws example_wf(1) [of "[True, False, True, True]"] l
    example_wf(2) [of "[True, False, True, True]"]
  note b = indexed_reads_in_bounds [OF w]
  note c2 = conjunct2
  note t = chooseLetter_reads_example
  from b have p: "js_index strengthProbs (strength ?g) \<noteq> None" by (rule conjunct1)
  from b [THEN c2, THEN conjunct1, THEN spec, of 0] t
  have c: "chooseLetter ?g ?rnd 0 = Some (''X'', 3)" by simp
  note r0 = b [THEN c2, THEN c2, THEN conjunct1, THEN spec, THEN spec, THEN spec, THEN spec,
      THEN mp, OF t]
  have r: "set [0, 1, 0] \<subseteq> {0, 1 :: int}"
    "js_index (passwordParts ?g) 0 \<noteq> None" "js_index (passwordParts ?g) 1 \<noteq> None"
    using r0 [THEN c2, THEN conjunct1] r0 [THEN c2, THEN c2] by simp_all
  from b [THEN c2, THEN c2, THEN c2, THEN c2, THEN c2, THEN conjunct1, THEN spec, THEN spec,
      of 10 2]
  have e: "\<exists>c. chooseNumOrSymbol_emit ?g ?rnd 10 2 = Inr (Str [c], 3)"
    by (simp add: numeral_3_eq_3)
  from b [THEN c2, THEN c2, THEN c2, THEN c2, THEN c2, THEN c2, THEN c2, THEN c2, THEN c2,
      THEN conjunct1, THEN spec, of 0]
  have s: "string_index (symbols ?g)
     (js_round (?rnd 0 * real_of_int (int (length (symbols ?g)) - 1))) \<noteq> Undefined"
    by (simp only: simp_thms)
  have le: "(10 :: int) \<le>
      symbol \<lparr>number = 80, symbol = 20, letter = 75, barColor = ''yellow''\<rparr>" by simp
  have len: "length symbols_init = 34" by (simp add: symbols_init_def)
  from b [THEN c2, THEN c2, THEN c2, THEN c2, THEN c2, THEN c2, THEN conjunct1,
      THEN spec, THEN spec, THEN spec, THEN mp, OF example_profile, THEN mp, OF le, of 2]
  obtain k where k: "0 \<le> k" "k \<le> int (length (symbols ?g)) - 1"
    "chooseNumOrSymbol_emit ?g ?rnd 10 2 = Inr (string_index (symbols ?g) k, Suc 2)"
    by (elim exE conjE)
  then have "0 \<le> k \<and> k \<le> 33 \<and>
      chooseNumOrSymbol_emit ?g ?rnd 10 2 = Inr (string_index symbols_init k, 3)"
    by (simp add: example_wf len)
  then have ix: "\<exists>k. 0 \<le> k \<and> k \<le> 33 \<and>
      chooseNumOrSymbol_emit ?g ?rnd 10 2 = Inr (string_index symbols_init k, 3)"
    by (rule exI)
  obtain r where r': "generatePassword ?g ?rnd 0 = Some r"
    using generatePassword_terminates [OF example_fair_any, of True False True True 0] by fastforce
  from b [THEN c2, THEN c2, THEN c2, THEN c2, THEN c2, THEN c2, THEN c2, THEN c2,
      THEN c2, THEN c2, THEN c2, THEN spec, THEN spec, THEN mp, OF r'] r'
  have gp: "\<exists>g' i'. generatePassword ?g ?rnd 0 = Some (Inr (g', i'))" by simp
  from w p t c r s e ix gp show ?thesis by (intro conjI)
qed

end
